theory Spec2Isabelle
  imports Main "HOL-Library.Word"
begin

unbundle bit_operations_syntax

section \<open>C integers of the target\<close>

text \<open>
  The driver is compiled for a 32-bit microcontroller: \<open>int\<close> is 32 bits wide and
  \<open>size_t\<close> is an unsigned 32-bit type.  A C \<open>int\<close> is modelled as a HOL
  integer together with the range it must stay in; an arithmetic result that
  leaves the range is undefined behaviour in C and is a fault of the model.
\<close>

definition INT_MAX :: int where
  "INT_MAX = 2147483647"

definition INT_MIN :: int where
  "INT_MIN = - 2147483648"

definition SIZE_MAX :: int where
  "SIZE_MAX = 4294967295"

definition in_int_range :: "int \<Rightarrow> bool" where
  "in_int_range v = (INT_MIN \<le> v \<and> v \<le> INT_MAX)"

text \<open>The conversion of an \<open>int\<close> to \<open>size_t\<close> (modulo \<open>2 ^ 32\<close>).\<close>

definition to_size_t :: "int \<Rightarrow> nat" where
  "to_size_t v = nat (v mod 4294967296)"

text \<open>C division truncates towards zero.\<close>

definition c_div :: "int \<Rightarrow> int \<Rightarrow> int" where
  "c_div a b = sgn a * sgn b * (\<bar>a\<bar> div \<bar>b\<bar>)"

section \<open>WS2812B timing parameters\<close>

definition RMT_TICK_NS :: int where
  "RMT_TICK_NS = 25"

definition WS2812_T0H_NS :: int where
  "WS2812_T0H_NS = 350"

definition WS2812_T0L_NS :: int where
  "WS2812_T0L_NS = 900"

definition WS2812_T1H_NS :: int where
  "WS2812_T1H_NS = 900"

definition WS2812_T1L_NS :: int where
  "WS2812_T1L_NS = 350"

definition WS2812_RESET_US :: int where
  "WS2812_RESET_US = 280"

definition NS_TO_TICKS :: "int \<Rightarrow> int" where
  "NS_TO_TICKS ns = c_div ns RMT_TICK_NS"

section \<open>Pulse descriptors\<close>

text \<open>
  \<open>rmt_item32_t\<close> comes from the peripheral driver's header: two 15-bit
  durations, each followed by a 1-bit level.
\<close>

type_synonym u8 = "8 word"

record rmt_item32_t =
  duration0 :: "15 word"
  level0 :: "1 word"
  duration1 :: "15 word"
  level1 :: "1 word"

text \<open>
  The body of the inner loop of \<open>neopixel_buf_to_rmt_items\<close>: the four
  assignments to \<open>items[idx]\<close>, chosen by \<open>byte & (1 << (7 - j))\<close>.  The byte is
  promoted to \<open>int\<close> before the mask is applied.
\<close>

definition store_bit :: "u8 \<Rightarrow> int \<Rightarrow> rmt_item32_t \<Rightarrow> rmt_item32_t" where
  "store_bit byte j it =
     (if (uint byte AND push_bit (nat (7 - j)) 1) \<noteq> 0
      then it\<lparr>level0 := 1,
              duration0 := word_of_int (NS_TO_TICKS WS2812_T1H_NS),
              level1 := 0,
              duration1 := word_of_int (NS_TO_TICKS WS2812_T1L_NS)\<rparr>
      else it\<lparr>level0 := 1,
              duration0 := word_of_int (NS_TO_TICKS WS2812_T0H_NS),
              level1 := 0,
              duration1 := word_of_int (NS_TO_TICKS WS2812_T0L_NS)\<rparr>)"

section \<open>The bit encoder\<close>

text \<open>
  The inner loop \<open>for (int j = 0; j < 8; j++)\<close> over one byte.  The result is
  \<open>None\<close> where the C program has undefined behaviour: \<open>i * 8 + j\<close> leaves the
  range of \<open>int\<close>, or \<open>items[idx]\<close> lies outside the destination.
\<close>

function bits_loop ::
  "u8 \<Rightarrow> int \<Rightarrow> int \<Rightarrow> rmt_item32_t list \<Rightarrow> rmt_item32_t list option" where
  "bits_loop byte i j its =
     (if j < 8 then
        (let idx = i * 8 + j in
         if \<not> in_int_range (i * 8) \<or> \<not> in_int_range idx then None
         else if idx < 0 \<or> int (length its) \<le> idx then None
         else bits_loop byte i (j + 1)
                (its[nat idx := store_bit byte j (its ! nat idx)]))
      else Some its)"
  by pat_completeness auto
termination
  by (relation "measure (\<lambda>(byte, i, j, its). nat (8 - j))") auto

declare bits_loop.simps [simp del]

text \<open>
  The outer loop \<open>for (int i = 0; i < len; i++)\<close>; reading \<open>buf[i]\<close> outside the
  source buffer is undefined behaviour as well.
\<close>

function bytes_loop ::
  "u8 list \<Rightarrow> int \<Rightarrow> int \<Rightarrow> rmt_item32_t list \<Rightarrow> rmt_item32_t list option" where
  "bytes_loop buf len i its =
     (if i < len then
        (if i < 0 \<or> int (length buf) \<le> i then None
         else case bits_loop (buf ! nat i) i 0 its of
                None \<Rightarrow> None
              | Some its' \<Rightarrow> bytes_loop buf len (i + 1) its')
      else Some its)"
  by pat_completeness auto
termination
  by (relation "measure (\<lambda>(buf, len, i, its). nat (len - i))") auto

declare bytes_loop.simps [simp del]

definition neopixel_buf_to_rmt_items ::
  "u8 list \<Rightarrow> int \<Rightarrow> rmt_item32_t list \<Rightarrow> rmt_item32_t list option" where
  "neopixel_buf_to_rmt_items buf len its = bytes_loop buf len 0 its"

subsection \<open>The encoder as the specification words it\<close>

text \<open>
  One pulse descriptor per bit: the high phase first, then the low phase; a set
  bit takes the pair (T1H, T1L), a clear bit the pair (T0H, T0L).
\<close>

definition T0H :: "15 word" where
  "T0H = word_of_int (NS_TO_TICKS WS2812_T0H_NS)"

definition T0L :: "15 word" where
  "T0L = word_of_int (NS_TO_TICKS WS2812_T0L_NS)"

definition T1H :: "15 word" where
  "T1H = word_of_int (NS_TO_TICKS WS2812_T1H_NS)"

definition T1L :: "15 word" where
  "T1L = word_of_int (NS_TO_TICKS WS2812_T1L_NS)"

definition spec_pulse :: "bool \<Rightarrow> rmt_item32_t" where
  "spec_pulse b =
     (if b then \<lparr>duration0 = T1H, level0 = 1, duration1 = T1L, level1 = 0\<rparr>
      else \<lparr>duration0 = T0H, level0 = 1, duration1 = T0L, level1 = 0\<rparr>)"

definition spec_encode_byte :: "u8 \<Rightarrow> rmt_item32_t list" where
  "spec_encode_byte byte = map (\<lambda>k. spec_pulse (bit byte k)) [7, 6, 5, 4, 3, 2, 1, 0]"

definition spec_encode :: "u8 list \<Rightarrow> rmt_item32_t list" where
  "spec_encode bytes = concat (map spec_encode_byte bytes)"

section \<open>Terms and results of the host runtime\<close>

text \<open>
  The arguments of a native function are terms of the virtual machine.  The
  driver only asks whether a term is an integer or a binary and reads it; every
  other kind of term is an \<open>Atom\<close> here.  The accessors belong to the runtime
  (\<open>term.h\<close>); \<open>term_to_int\<close> and the binary accessors are only called on terms
  that passed the matching test, their value elsewhere is a placeholder.
\<close>

datatype term_t = Integer int | Binary "u8 list" | Atom string

fun term_is_integer :: "term_t \<Rightarrow> bool" where
  "term_is_integer (Integer n) = True"
| "term_is_integer t = False"

fun term_to_int :: "term_t \<Rightarrow> int" where
  "term_to_int (Integer n) = n"
| "term_to_int t = 0"

fun term_is_binary :: "term_t \<Rightarrow> bool" where
  "term_is_binary (Binary bs) = True"
| "term_is_binary t = False"

fun term_binary_data :: "term_t \<Rightarrow> u8 list" where
  "term_binary_data (Binary bs) = bs"
| "term_binary_data t = []"

fun term_binary_size :: "term_t \<Rightarrow> int" where
  "term_binary_size (Binary bs) = int (length bs)"
| "term_binary_size t = 0"

datatype nif_result = BADARITY | BADARG | MEMORY_ERROR_ATOM | OK_ATOM | ERROR_ATOM

text \<open>
  A call returns a term, or \<open>ESP_ERROR_CHECK\<close> aborts the process, or the C
  program has undefined behaviour.
\<close>

datatype outcome = Returns nif_result | Aborts | Undefined_behaviour

section \<open>The peripheral driver's configuration\<close>

datatype rmt_mode_t = RMT_MODE_TX | RMT_MODE_RX

datatype rmt_channel_t = RMT_CHANNEL_0 | RMT_CHANNEL_other nat

definition RMT_CHANNEL :: rmt_channel_t where
  "RMT_CHANNEL = RMT_CHANNEL_0"

record rmt_tx_config_t =
  loop_en :: bool
  carrier_en :: bool
  idle_output_en :: bool
  idle_level :: nat

record rmt_config_t =
  rmt_mode :: rmt_mode_t
  channel :: rmt_channel_t
  clk_div :: nat
  gpio_num :: int
  mem_block_num :: nat
  tx_config :: rmt_tx_config_t

section \<open>Memory, the environment and the process-wide state\<close>

type_synonym addr = nat

record neopixel_state_t =
  pin :: int
  num_leds :: int
  pixels :: "addr option"
  items :: "addr option"

text \<open>A pointer is \<open>None\<close> (NULL) or the address of a block of the heap.\<close>

datatype block =
    State_block neopixel_state_t
  | Pixel_block "u8 list"
  | Item_block "rmt_item32_t list"

text \<open>
  Everything the driver does to its environment is recorded in order: log lines,
  calls of the allocator with their results, and calls of the peripheral driver
  with their arguments (for \<open>rmt_write_items\<close>, the descriptors it is handed).
\<close>

datatype event =
    Esp_logi int int
  | Malloc nat "addr option"
  | Calloc nat nat "addr option"
  | Free addr
  | Rmt_config rmt_config_t
  | Rmt_driver_install rmt_channel_t nat int
  | Rmt_write_items rmt_channel_t "rmt_item32_t list" int bool
  | Rmt_wait_tx_done rmt_channel_t int

text \<open>
  \<open>g_state\<close> is the global pointer.  The allocator hands out addresses it never
  used before (\<open>next_addr\<close>); whether a request succeeds is the environment's
  choice, read from \<open>alloc_oracle\<close>, and so is the result of each driver call
  (\<open>True\<close> for \<open>ESP_OK\<close>), read from \<open>esp_oracle\<close>.  An exhausted list answers
  with failure.
\<close>

record world =
  g_state :: "addr option"
  heap :: "addr \<Rightarrow> block option"
  next_addr :: addr
  alloc_oracle :: "bool list"
  esp_oracle :: "bool list"
  trace :: "event list"

definition boot :: "bool list \<Rightarrow> bool list \<Rightarrow> world" where
  "boot ao eo =
     \<lparr>g_state = None, heap = Map.empty, next_addr = 0,
      alloc_oracle = ao, esp_oracle = eo, trace = []\<rparr>"

definition sizeof_neopixel_state_t :: nat where
  "sizeof_neopixel_state_t = 16"

definition sizeof_uint8_t :: nat where
  "sizeof_uint8_t = 1"

definition sizeof_rmt_item32_t :: nat where
  "sizeof_rmt_item32_t = 4"

text \<open>
  \<open>malloc\<close> leaves the contents of the block indeterminate.  The driver assigns
  every field of the record before it reads it, so a fixed placeholder stands
  for the indeterminate contents.
\<close>

definition indeterminate_state :: neopixel_state_t where
  "indeterminate_state = \<lparr>pin = 0, num_leds = 0, pixels = None, items = None\<rparr>"

definition place :: "block \<Rightarrow> (addr option \<Rightarrow> event) \<Rightarrow> world \<Rightarrow> addr option \<times> world" where
  "place blk ev w =
     (case alloc_oracle w of
        True # rest \<Rightarrow>
          (Some (next_addr w),
           w\<lparr>heap := (heap w)(next_addr w \<mapsto> blk),
             next_addr := Suc (next_addr w),
             alloc_oracle := rest,
             trace := trace w @ [ev (Some (next_addr w))]\<rparr>)
      | _ \<Rightarrow>
          (None, w\<lparr>alloc_oracle := tl (alloc_oracle w), trace := trace w @ [ev None]\<rparr>))"

definition c_malloc :: "nat \<Rightarrow> block \<Rightarrow> world \<Rightarrow> addr option \<times> world" where
  "c_malloc sz blk w = place blk (Malloc sz) w"

text \<open>
  \<open>calloc\<close> returns NULL when the product of its arguments is not a \<open>size_t\<close>; the block it
  returns is zeroed.
\<close>

definition c_calloc :: "nat \<Rightarrow> nat \<Rightarrow> block \<Rightarrow> world \<Rightarrow> addr option \<times> world" where
  "c_calloc nmemb sz blk w =
     (if SIZE_MAX < int nmemb * int sz
      then (None, w\<lparr>trace := trace w @ [Calloc nmemb sz None]\<rparr>)
      else place blk (Calloc nmemb sz) w)"

definition zero_item :: rmt_item32_t where
  "zero_item = \<lparr>duration0 = 0, level0 = 0, duration1 = 0, level1 = 0\<rparr>"

text \<open>Freeing an address that is not a live block is undefined behaviour.\<close>

definition c_free :: "addr \<Rightarrow> world \<Rightarrow> world option" where
  "c_free p w =
     (if heap w p = None then None
      else Some (w\<lparr>heap := (heap w)(p := None), trace := trace w @ [Free p]\<rparr>))"

text \<open>\<open>free(NULL)\<close> does nothing.\<close>

definition c_free_ptr :: "addr option \<Rightarrow> world \<Rightarrow> world option" where
  "c_free_ptr q w = (case q of None \<Rightarrow> Some w | Some p \<Rightarrow> c_free p w)"

text \<open>Reading \<open>*g_state\<close>: the pointer must address a live record.\<close>

definition deref_state :: "world \<Rightarrow> neopixel_state_t option" where
  "deref_state w =
     (case g_state w of
        None \<Rightarrow> None
      | Some p \<Rightarrow> (case heap w p of Some (State_block s) \<Rightarrow> Some s | _ \<Rightarrow> None))"

text \<open>Writing a field through \<open>g_state\<close>.\<close>

definition assign_state :: "(neopixel_state_t \<Rightarrow> neopixel_state_t) \<Rightarrow> world \<Rightarrow> world option" where
  "assign_state f w =
     (case g_state w of
        None \<Rightarrow> None
      | Some p \<Rightarrow>
          (case heap w p of
             Some (State_block s) \<Rightarrow> Some (w\<lparr>heap := (heap w)(p \<mapsto> State_block (f s))\<rparr>)
           | _ \<Rightarrow> None))"

text \<open>A call of the peripheral driver: recorded, and answered by the environment.\<close>

definition esp_call :: "event \<Rightarrow> world \<Rightarrow> bool \<times> world" where
  "esp_call ev w =
     (case esp_oracle w of
        [] \<Rightarrow> (False, w\<lparr>trace := trace w @ [ev]\<rparr>)
      | ok # rest \<Rightarrow> (ok, w\<lparr>esp_oracle := rest, trace := trace w @ [ev]\<rparr>))"

definition esp_logi :: "int \<Rightarrow> int \<Rightarrow> world \<Rightarrow> world" where
  "esp_logi n p w = w\<lparr>trace := trace w @ [Esp_logi n p]\<rparr>"

section \<open>Control flow of a native function\<close>

text \<open>
  A block of statements either returns from the function (or faults) with an
  outcome, or lets control continue to the next statement.
\<close>

type_synonym flow = "outcome option \<times> world"

definition and_then :: "flow \<Rightarrow> (world \<Rightarrow> flow) \<Rightarrow> flow" where
  "and_then r f = (case r of (None, w) \<Rightarrow> f w | (Some out, w) \<Rightarrow> (Some out, w))"

definition undefined_if_none :: "world \<Rightarrow> world option \<Rightarrow> flow" where
  "undefined_if_none w r =
     (case r of None \<Rightarrow> (Some Undefined_behaviour, w) | Some w' \<Rightarrow> (None, w'))"

text \<open>Control never reaches the end of a native function without a \<open>return\<close>.\<close>

definition finish :: "flow \<Rightarrow> outcome \<times> world" where
  "finish r = (case r of (None, w) \<Rightarrow> (Undefined_behaviour, w) | (Some out, w) \<Rightarrow> (out, w))"

definition with_state :: "world \<Rightarrow> (neopixel_state_t \<Rightarrow> flow) \<Rightarrow> flow" where
  "with_state w f =
     (case deref_state w of None \<Rightarrow> (Some Undefined_behaviour, w) | Some s \<Rightarrow> f s)"

section \<open>Initialize NeoPixel driver\<close>

text \<open>Lines 88 to 97: a previous state is freed, buffers first.\<close>

definition free_previous :: "world \<Rightarrow> flow" where
  "free_previous w =
     (if g_state w \<noteq> None then
        and_then
          (with_state w (\<lambda>s.
             if pixels s \<noteq> None then undefined_if_none w (c_free_ptr (pixels s) w)
             else (None, w)))
          (\<lambda>w. and_then
             (with_state w (\<lambda>s.
                if items s \<noteq> None then undefined_if_none w (c_free_ptr (items s) w)
                else (None, w)))
             (\<lambda>w. undefined_if_none w (c_free_ptr (g_state w) w)))
      else (None, w))"

text \<open>Lines 99 to 105: the record is allocated, \<open>pin\<close> and \<open>num_leds\<close> are stored.\<close>

definition alloc_state :: "int \<Rightarrow> int \<Rightarrow> world \<Rightarrow> flow" where
  "alloc_state pin_arg num_leds_arg w =
     (let (r, w1) = c_malloc sizeof_neopixel_state_t (State_block indeterminate_state) w;
          w2 = w1\<lparr>g_state := r\<rparr>
      in if g_state w2 = None then (Some (Returns MEMORY_ERROR_ATOM), w2)
         else and_then
                (undefined_if_none w2 (assign_state (\<lambda>s. s\<lparr>pin := pin_arg\<rparr>) w2))
                (\<lambda>w. undefined_if_none w
                        (assign_state (\<lambda>s. s\<lparr>num_leds := num_leds_arg\<rparr>) w)))"

text \<open>Lines 107 to 113: the pixel buffer, 3 bytes per LED, zeroed.\<close>

definition alloc_pixels :: "int \<Rightarrow> world \<Rightarrow> flow" where
  "alloc_pixels num_leds_arg w =
     (if \<not> in_int_range (num_leds_arg * 3) then (Some Undefined_behaviour, w)
      else
        let n = to_size_t (num_leds_arg * 3);
            (r, w1) = c_calloc n sizeof_uint8_t (Pixel_block (replicate n 0)) w
        in and_then
             (undefined_if_none w1 (assign_state (\<lambda>s. s\<lparr>pixels := r\<rparr>) w1))
             (\<lambda>w. with_state w (\<lambda>s.
                if pixels s = None then
                  and_then
                    (undefined_if_none w (c_free_ptr (g_state w) w))
                    (\<lambda>w. (Some (Returns MEMORY_ERROR_ATOM), w\<lparr>g_state := None\<rparr>))
                else (None, w))))"

text \<open>Lines 115 to 122: the buffer of pulse descriptors, 8 per byte.\<close>

definition alloc_items :: "int \<Rightarrow> world \<Rightarrow> flow" where
  "alloc_items num_leds_arg w =
     (if \<not> in_int_range (num_leds_arg * 3) \<or> \<not> in_int_range (num_leds_arg * 3 * 8)
      then (Some Undefined_behaviour, w)
      else
        let n = to_size_t (num_leds_arg * 3 * 8);
            (r, w1) = c_calloc n sizeof_rmt_item32_t (Item_block (replicate n zero_item)) w
        in and_then
             (undefined_if_none w1 (assign_state (\<lambda>s. s\<lparr>items := r\<rparr>) w1))
             (\<lambda>w. with_state w (\<lambda>s.
                if items s = None then
                  and_then
                    (with_state w (\<lambda>s. undefined_if_none w (c_free_ptr (pixels s) w)))
                    (\<lambda>w. and_then
                       (undefined_if_none w (c_free_ptr (g_state w) w))
                       (\<lambda>w. (Some (Returns MEMORY_ERROR_ATOM), w\<lparr>g_state := None\<rparr>)))
                else (None, w))))"

text \<open>Lines 124 to 142: the peripheral is configured and its driver installed.\<close>

definition rmt_cfg :: "int \<Rightarrow> rmt_config_t" where
  "rmt_cfg pin_arg =
     \<lparr>rmt_mode = RMT_MODE_TX,
      channel = RMT_CHANNEL,
      clk_div = 1,
      gpio_num = pin_arg,
      mem_block_num = 1,
      tx_config =
        \<lparr>loop_en = False, carrier_en = False, idle_output_en = True, idle_level = 0\<rparr>\<rparr>"

definition configure_rmt :: "int \<Rightarrow> world \<Rightarrow> flow" where
  "configure_rmt pin_arg w =
     (let (ok, w1) = esp_call (Rmt_config (rmt_cfg pin_arg)) w
      in if \<not> ok then (Some Aborts, w1)
         else let (ok, w2) = esp_call (Rmt_driver_install RMT_CHANNEL 0 0) w1
              in if \<not> ok then (Some Aborts, w2)
                 else (Some (Returns OK_ATOM), w2))"

text \<open>\<open>argc\<close> is the length of \<open>argv\<close>.\<close>

definition nif_rmt_neopixel_init :: "world \<Rightarrow> term_t list \<Rightarrow> outcome \<times> world" where
  "nif_rmt_neopixel_init w argv =
     (if length argv \<noteq> 2 then (Returns BADARITY, w)
      else
        let pin_term = argv ! 0; num_leds_term = argv ! 1
        in if \<not> term_is_integer pin_term \<or> \<not> term_is_integer num_leds_term
           then (Returns BADARG, w)
           else
             let pin_arg = term_to_int pin_term; num_leds_arg = term_to_int num_leds_term
             in finish
                  (and_then (free_previous (esp_logi num_leds_arg pin_arg w))
                     (\<lambda>w. and_then (alloc_state pin_arg num_leds_arg w)
                        (\<lambda>w. and_then (alloc_pixels num_leds_arg w)
                           (\<lambda>w. and_then (alloc_items num_leds_arg w)
                              (\<lambda>w. configure_rmt pin_arg w))))))"

section \<open>Send pixel data to NeoPixel strip\<close>

text \<open>
  \<open>memcpy\<close> into a pixel buffer: the count is converted to \<open>size_t\<close>; both the
  destination and the source must hold that many bytes.
\<close>

definition c_memcpy :: "addr option \<Rightarrow> u8 list \<Rightarrow> int \<Rightarrow> world \<Rightarrow> world option" where
  "c_memcpy dest src n w =
     (let cnt = to_size_t n
      in case dest of
           None \<Rightarrow> None
         | Some d \<Rightarrow>
             (case heap w d of
                Some (Pixel_block old) \<Rightarrow>
                  if cnt \<le> length old \<and> cnt \<le> length src
                  then Some (w\<lparr>heap := (heap w)(d \<mapsto> Pixel_block (take cnt src @ drop cnt old))\<rparr>)
                  else None
              | _ \<Rightarrow> None))"

text \<open>Line 170.\<close>

definition copy_pixels :: "u8 list \<Rightarrow> int \<Rightarrow> world \<Rightarrow> world option" where
  "copy_pixels buffer byte_count w =
     (case deref_state w of
        None \<Rightarrow> None
      | Some s \<Rightarrow> c_memcpy (pixels s) buffer byte_count w)"

text \<open>
  Line 173: the encoder reads the pixel buffer and writes the pulse buffer in
  place.  With a count that is not positive it touches neither.
\<close>

definition encode_pixels :: "int \<Rightarrow> world \<Rightarrow> world option" where
  "encode_pixels byte_count w =
     (case deref_state w of
        None \<Rightarrow> None
      | Some s \<Rightarrow>
          if byte_count \<le> 0 then Some w
          else
            (case (pixels s, items s) of
               (Some px, Some it) \<Rightarrow>
                 (case (heap w px, heap w it) of
                    (Some (Pixel_block buf), Some (Item_block its)) \<Rightarrow>
                      (case neopixel_buf_to_rmt_items buf byte_count its of
                         None \<Rightarrow> None
                       | Some its' \<Rightarrow> Some (w\<lparr>heap := (heap w)(it \<mapsto> Item_block its')\<rparr>))
                  | _ \<Rightarrow> None)
             | _ \<Rightarrow> None))"

text \<open>
  Lines 176 to 181: the first \<open>byte_count * 8\<close> descriptors are handed to the
  driver, then the call waits for the transmission (at most 100 ms).
\<close>

definition transmit :: "int \<Rightarrow> world \<Rightarrow> flow" where
  "transmit byte_count w =
     (if \<not> in_int_range (byte_count * 8) then (Some Undefined_behaviour, w)
      else with_state w (\<lambda>s.
        case items s of
          None \<Rightarrow> (Some Undefined_behaviour, w)
        | Some it \<Rightarrow>
            (case heap w it of
               Some (Item_block its) \<Rightarrow>
                 if byte_count * 8 < 0 \<or> int (length its) < byte_count * 8
                 then (Some Undefined_behaviour, w)
                 else
                   let (ok, w1) =
                         esp_call (Rmt_write_items RMT_CHANNEL
                                     (take (nat (byte_count * 8)) its) (byte_count * 8) False) w
                   in if \<not> ok then (Some Aborts, w1)
                      else let (ok, w2) = esp_call (Rmt_wait_tx_done RMT_CHANNEL 100) w1
                           in if \<not> ok then (Some Aborts, w2)
                              else (Some (Returns OK_ATOM), w2)
             | _ \<Rightarrow> (Some Undefined_behaviour, w))))"

definition nif_rmt_neopixel_show :: "world \<Rightarrow> term_t list \<Rightarrow> outcome \<times> world" where
  "nif_rmt_neopixel_show w argv =
     (if length argv \<noteq> 1 then (Returns BADARITY, w)
      else
        let binary_term = argv ! 0
        in if \<not> term_is_binary binary_term then (Returns BADARG, w)
           else if g_state w = None then (Returns ERROR_ATOM, w)
           else
             let buffer = term_binary_data binary_term;
                 byte_count = term_binary_size binary_term
             in finish
                  (with_state w (\<lambda>s.
                     if \<not> in_int_range (num_leds s * 3) then (Some Undefined_behaviour, w)
                     else
                       let byte_count =
                             (if byte_count > num_leds s * 3 then num_leds s * 3
                              else byte_count)
                       in and_then (undefined_if_none w (copy_pixels buffer byte_count w))
                            (\<lambda>w. and_then (undefined_if_none w (encode_pixels byte_count w))
                               (\<lambda>w. transmit byte_count w)))))"

section \<open>Sequences of calls\<close>

datatype call = Initialize "term_t list" | Show "term_t list"

fun perform :: "call \<Rightarrow> world \<Rightarrow> outcome \<times> world" where
  "perform (Initialize argv) w = nif_rmt_neopixel_init w argv"
| "perform (Show argv) w = nif_rmt_neopixel_show w argv"

text \<open>The process goes on to the next call only when a call returned.\<close>

fun run :: "call list \<Rightarrow> world \<Rightarrow> world option" where
  "run [] w = Some w"
| "run (c # cs) w =
     (case perform c w of
        (Returns r, w') \<Rightarrow> run cs w'
      | (Aborts, w') \<Rightarrow> None
      | (Undefined_behaviour, w') \<Rightarrow> None)"

section \<open>Observing the session\<close>

definition pixel_buffer :: "world \<Rightarrow> u8 list option" where
  "pixel_buffer w =
     (case deref_state w of
        None \<Rightarrow> None
      | Some s \<Rightarrow>
          (case pixels s of
             None \<Rightarrow> None
           | Some px \<Rightarrow> (case heap w px of Some (Pixel_block ps) \<Rightarrow> Some ps | _ \<Rightarrow> None)))"

definition pulse_buffer :: "world \<Rightarrow> rmt_item32_t list option" where
  "pulse_buffer w =
     (case deref_state w of
        None \<Rightarrow> None
      | Some s \<Rightarrow>
          (case items s of
             None \<Rightarrow> None
           | Some it \<Rightarrow> (case heap w it of Some (Item_block its) \<Rightarrow> Some its | _ \<Rightarrow> None)))"

text \<open>The requests that the allocator turned down.\<close>

fun alloc_failed :: "event \<Rightarrow> bool" where
  "alloc_failed (Malloc n None) = True"
| "alloc_failed (Calloc n m None) = True"
| "alloc_failed e = False"

text \<open>
  The address an allocation event handed out, and the property that every block
  handed out in a run of events is also freed in that run.
\<close>

fun allocated :: "event \<Rightarrow> addr option" where
  "allocated (Malloc n r) = r"
| "allocated (Calloc n m r) = r"
| "allocated e = None"

definition all_released :: "event list \<Rightarrow> bool" where
  "all_released evs =
     list_all (\<lambda>e. case allocated e of None \<Rightarrow> True | Some a \<Rightarrow> Free a \<in> set evs) evs"

text \<open>
  Allocation tracking over a run of events: the blocks that are live after the
  run (starting from the live blocks \<open>l\<close>), and the largest number of blocks
  that were live at any moment of the run.
\<close>

fun track :: "event \<Rightarrow> addr list \<Rightarrow> addr list" where
  "track (Free a) l = removeAll a l"
| "track e l = (case allocated e of None \<Rightarrow> l | Some a \<Rightarrow> a # l)"

fun live_after :: "event list \<Rightarrow> addr list \<Rightarrow> addr list" where
  "live_after [] l = l"
| "live_after (e # es) l = live_after es (track e l)"

fun peak_live :: "event list \<Rightarrow> addr list \<Rightarrow> nat" where
  "peak_live [] l = length l"
| "peak_live (e # es) l = max (length l) (peak_live es (track e l))"

text \<open>The statements of \<open>nif_rmt_neopixel_init\<close> from line 99 on.\<close>

abbreviation init_tail :: "int \<Rightarrow> int \<Rightarrow> world \<Rightarrow> outcome \<times> world" where
  "init_tail P N w \<equiv>
     finish (and_then (alloc_state P N w)
       (\<lambda>w. and_then (alloc_pixels N w)
          (\<lambda>w. and_then (alloc_items N w)
             (\<lambda>w. configure_rmt P w))))"

text \<open>The blocks of the live session, in the order in which the driver frees them.\<close>

definition session_blocks :: "world \<Rightarrow> addr list" where
  "session_blocks w =
     (case deref_state w of
        None \<Rightarrow> []
      | Some s \<Rightarrow>
          (case pixels s of None \<Rightarrow> [] | Some px \<Rightarrow> [px]) @
          (case items s of None \<Rightarrow> [] | Some it \<Rightarrow> [it]) @
          (case g_state w of None \<Rightarrow> [] | Some p \<Rightarrow> [p]))"

text \<open>
  A well-formed world: no session and no live block, or one session whose three
  blocks are the only live ones, with buffers of \<open>3 * num_leds\<close> bytes and
  \<open>24 * num_leds\<close> descriptors.
\<close>

definition session_inv :: "world \<Rightarrow> bool" where
  "session_inv w =
     (case g_state w of
        None \<Rightarrow> dom (heap w) = {}
      | Some p \<Rightarrow>
          (case deref_state w of
             None \<Rightarrow> False
           | Some s \<Rightarrow>
               (case pixel_buffer w of
                  None \<Rightarrow> False
                | Some ps \<Rightarrow>
                    (case pulse_buffer w of
                       None \<Rightarrow> False
                     | Some its \<Rightarrow>
                         dom (heap w) = set (session_blocks w) \<and>
                         list_all (\<lambda>a. a < next_addr w) (session_blocks w) \<and>
                         0 \<le> num_leds s \<and> num_leds s * 24 \<le> INT_MAX \<and>
                         length ps = nat (num_leds s * 3) \<and>
                         length its = nat (num_leds s * 24)))))"

section \<open>The bit encoder meets its specification\<close>

lemma mask_bit: "n < 8 \<Longrightarrow> ((uint (byte::u8) AND push_bit n 1) \<noteq> 0) = bit byte n"
proof -
  assume n: "n < 8"
  have "bit (uint byte) n = ((uint byte AND push_bit n 1) \<noteq> 0)"
    by (rule bit_iff_and_push_bit_not_eq_0)
  moreover have "bit (uint byte) n = bit byte n"
    using n by (simp add: bit_uint_iff)
  ultimately show ?thesis by (simp only:)
qed

lemma store_bit_spec:
  "0 \<le> j \<Longrightarrow> j < 8 \<Longrightarrow> store_bit byte j it = spec_pulse (bit byte (nat (7 - j)))"
  using mask_bit [of "nat (7 - j)" byte]
  by (cases it) (simp add: store_bit_def spec_pulse_def T0H_def T0L_def T1H_def T1L_def del: push_bit_of_1)

lemma bits_loop_spec:
  "0 \<le> j \<Longrightarrow> j \<le> 8 \<Longrightarrow> 0 \<le> i \<Longrightarrow> i * 8 + 8 \<le> int (length its) \<Longrightarrow> i * 8 + 7 \<le> INT_MAX \<Longrightarrow>
   \<exists>its'. bits_loop byte i j its = Some its' \<and> length its' = length its \<and>
     (\<forall>k < length its. its' ! k =
        (if nat (i * 8 + j) \<le> k \<and> k < nat (i * 8 + 8)
         then spec_pulse (bit byte (7 - (k - nat (i * 8)))) else its ! k))"
proof (induction byte i j its rule: bits_loop.induct)
  case (1 byte i j its)
  show ?case
  proof (cases "j < 8")
    case False
    with 1(3) have "j = 8" by simp
    then show ?thesis by (auto simp add: bits_loop.simps [of byte i 8 its])
  next
    case True
    let ?idx = "i * 8 + j"
    let ?its1 = "its[nat ?idx := store_bit byte j (its ! nat ?idx)]"
    have rng: "in_int_range (i * 8)" "in_int_range ?idx"
      using True 1(2,4,6) by (simp_all add: in_int_range_def INT_MIN_def INT_MAX_def)
    have inb: "\<not> (?idx < 0 \<or> int (length its) \<le> ?idx)"
      using True 1(2,4,5) by simp
    have step: "bits_loop byte i j its = bits_loop byte i (j + 1) ?its1"
      using True rng inb by (subst bits_loop.simps) (simp add: Let_def)
    have "\<exists>its'. bits_loop byte i (j + 1) ?its1 = Some its' \<and> length its' = length ?its1 \<and>
     (\<forall>k < length ?its1. its' ! k =
        (if nat (i * 8 + (j + 1)) \<le> k \<and> k < nat (i * 8 + 8)
         then spec_pulse (bit byte (7 - (k - nat (i * 8)))) else ?its1 ! k))"
      using True rng inb 1(2,4,5,6)
      by (intro 1(1) [OF True refl]) simp_all
    then obtain its' where r: "bits_loop byte i (j + 1) ?its1 = Some its'"
      "length its' = length its"
      and nth: "\<And>k. k < length its \<Longrightarrow> its' ! k =
        (if nat (i * 8 + (j + 1)) \<le> k \<and> k < nat (i * 8 + 8)
         then spec_pulse (bit byte (7 - (k - nat (i * 8)))) else ?its1 ! k)"
      by auto
    have here: "7 - (nat ?idx - nat (i * 8)) = nat (7 - j)"
      using True 1(2,4) by (simp add: nat_diff_distrib nat_add_distrib)
    have "\<forall>k < length its. its' ! k =
        (if nat (i * 8 + j) \<le> k \<and> k < nat (i * 8 + 8)
         then spec_pulse (bit byte (7 - (k - nat (i * 8)))) else its ! k)"
    proof (intro allI impI)
      fix k assume k: "k < length its"
      show "its' ! k =
        (if nat (i * 8 + j) \<le> k \<and> k < nat (i * 8 + 8)
         then spec_pulse (bit byte (7 - (k - nat (i * 8)))) else its ! k)"
      proof (cases "k = nat ?idx")
        case True
        then show ?thesis
          using nth [OF k] k \<open>j < 8\<close> 1(2,4) here
          by (simp add: store_bit_spec nat_add_distrib)
      next
        case False
        then show ?thesis
          using nth [OF k] k \<open>j < 8\<close> 1(2,4)
          by (auto simp add: nat_add_distrib)
      qed
    qed
    with r step show ?thesis by simp
  qed
qed

lemma bits_loop_byte:
  assumes "n * 8 + 8 \<le> length its" "int n * 8 + 7 \<le> INT_MAX"
  shows "\<exists>its'. bits_loop byte (int n) 0 its = Some its' \<and> length its' = length its \<and>
     (\<forall>k < length its. its' ! k =
        (if n * 8 \<le> k \<and> k < n * 8 + 8
         then spec_pulse (bit byte (7 - (k - n * 8))) else its ! k))"
proof -
  have a: "nat (int n * 8 + 0) = n * 8" "nat (int n * 8 + 8) = n * 8 + 8" "nat (int n * 8) = n * 8"
    by (simp_all add: nat_add_distrib nat_mult_distrib)
  have "int n * 8 + 8 \<le> int (length its)" using assms(1) by linarith
  from bits_loop_spec [of 0 "int n" its byte, OF _ _ _ this assms(2)]
  show ?thesis unfolding a by simp
qed

lemma bytes_loop_spec:
  "n \<le> m \<Longrightarrow> m \<le> length buf \<Longrightarrow> m * 8 \<le> length its \<Longrightarrow> int m * 8 \<le> INT_MAX \<Longrightarrow>
   \<exists>its'. bytes_loop buf (int m) (int n) its = Some its' \<and> length its' = length its \<and>
     (\<forall>k < length its. its' ! k =
        (if n * 8 \<le> k \<and> k < m * 8
         then spec_pulse (bit (buf ! (k div 8)) (7 - k mod 8)) else its ! k))"
proof (induction "m - n" arbitrary: n its)
  case 0
  then have "n = m" by simp
  then show ?case by (auto simp add: bytes_loop.simps [of buf "int m" "int m" its])
next
  case (Suc d)
  then have nm: "n < m" by simp
  have sz: "n * 8 + 8 \<le> length its" using nm Suc.prems(3) by simp
  have rng: "int n * 8 + 7 \<le> INT_MAX" using nm Suc.prems(4) by simp
  obtain its1 where b: "bits_loop (buf ! n) (int n) 0 its = Some its1"
    and len1: "length its1 = length its"
    and nth1: "\<And>k. k < length its \<Longrightarrow> its1 ! k =
        (if n * 8 \<le> k \<and> k < n * 8 + 8
         then spec_pulse (bit (buf ! n) (7 - (k - n * 8))) else its ! k)"
    using bits_loop_byte [OF sz rng, of "buf ! n"] by blast
  have step: "bytes_loop buf (int m) (int n) its = bytes_loop buf (int m) (int (Suc n)) its1"
  proof -
    have "int n < int m" "\<not> (int n < 0 \<or> int (length buf) \<le> int n)"
      using nm Suc.prems(2) by simp_all
    moreover have "int n + 1 = int (Suc n)" by simp
    ultimately show ?thesis
      using b by (subst bytes_loop.simps) (simp only: if_True if_False nat_int option.case)
  qed
  have d: "d = m - Suc n" using Suc.hyps(2) by simp
  have le: "Suc n \<le> m" using nm by simp
  have sz1: "m * 8 \<le> length its1" using len1 Suc.prems(3) by simp
  obtain its' where r: "bytes_loop buf (int m) (int (Suc n)) its1 = Some its'"
    and len': "length its' = length its"
    and nth: "\<And>k. k < length its \<Longrightarrow> its' ! k =
        (if Suc n * 8 \<le> k \<and> k < m * 8
         then spec_pulse (bit (buf ! (k div 8)) (7 - k mod 8)) else its1 ! k)"
    using Suc.hyps(1) [OF d le Suc.prems(2) sz1 Suc.prems(4)] unfolding len1 by blast
  have "its' ! k =
        (if n * 8 \<le> k \<and> k < m * 8
         then spec_pulse (bit (buf ! (k div 8)) (7 - k mod 8)) else its ! k)"
    if k: "k < length its" for k
  proof (cases "n * 8 \<le> k \<and> k < n * 8 + 8")
    case True
    define r where "r = k - n * 8"
    have lo: "n * 8 \<le> k" and hi: "k < n * 8 + 8" using True by simp_all
    have kr: "k = r + n * 8" using lo by (simp add: r_def)
    have r: "r < 8" using lo hi unfolding r_def by linarith
    have dm: "k div 8 = n" "k mod 8 = k - n * 8"
      using r by (simp_all add: kr)
    have "its' ! k = its1 ! k" using nth [OF k] True by simp
    also have "\<dots> = spec_pulse (bit (buf ! n) (7 - (k - n * 8)))"
      using nth1 [OF k] True by simp
    finally show ?thesis using True nm dm by simp
  next
    case False
    have "its1 ! k = its ! k" using nth1 [OF k] False by simp
    moreover have "(Suc n * 8 \<le> k \<and> k < m * 8) = (n * 8 \<le> k \<and> k < m * 8)"
      using False by auto
    ultimately show ?thesis using nth [OF k] by simp
  qed
  with r step len' show ?case by simp
qed

lemma spec_encode_byte_nth:
  "k < 8 \<Longrightarrow> spec_encode_byte byte ! k = spec_pulse (bit byte (7 - k))"
proof -
  assume "k < 8"
  then have "k \<in> {0, 1, 2, 3, 4, 5, 6, 7}" by auto
  then show ?thesis by (auto simp add: spec_encode_byte_def)
qed

lemma length_spec_encode_byte: "length (spec_encode_byte byte) = 8"
  by (simp add: spec_encode_byte_def)

lemma length_spec_encode: "length (spec_encode bytes) = 8 * length bytes"
  by (induction bytes) (simp_all add: spec_encode_def length_spec_encode_byte)

lemma spec_encode_nth:
  "k < 8 * length bytes \<Longrightarrow>
   spec_encode bytes ! k = spec_pulse (bit (bytes ! (k div 8)) (7 - k mod 8))"
proof (induction bytes arbitrary: k)
  case Nil
  then show ?case by simp
next
  case (Cons b bs)
  have unfold: "spec_encode (b # bs) = spec_encode_byte b @ spec_encode bs"
    by (simp add: spec_encode_def)
  show ?case
  proof (cases "k < 8")
    case True
    then show ?thesis
      by (simp add: unfold nth_append length_spec_encode_byte spec_encode_byte_nth)
  next
    case False
    then obtain k' where k': "k = k' + 8" by (metis add.commute le_add_diff_inverse not_less)
    with Cons.prems have "k' < 8 * length bs" by simp
    moreover have "(k' + 8) div 8 = Suc (k' div 8)" by simp
    ultimately show ?thesis
      using Cons.IH [of k']
      by (simp add: unfold nth_append length_spec_encode_byte k')
  qed
qed

lemma encoder_spec:
  assumes "m \<le> length buf" "m * 8 \<le> length its" "int m * 8 \<le> INT_MAX"
  shows "neopixel_buf_to_rmt_items buf (int m) its =
           Some (spec_encode (take m buf) @ drop (m * 8) its)"
proof -
  obtain its' where r: "bytes_loop buf (int m) (int 0) its = Some its'"
    and l: "length its' = length its"
    and nth: "\<And>k. k < length its \<Longrightarrow> its' ! k =
        (if 0 * 8 \<le> k \<and> k < m * 8
         then spec_pulse (bit (buf ! (k div 8)) (7 - k mod 8)) else its ! k)"
    using bytes_loop_spec [of 0 m buf its, OF _ assms] by blast
  have "its' = spec_encode (take m buf) @ drop (m * 8) its"
  proof (rule nth_equalityI)
    show "length its' = length (spec_encode (take m buf) @ drop (m * 8) its)"
      using l assms(1,2) by (simp add: length_spec_encode)
  next
    fix k assume "k < length its'"
    then have k: "k < length its" using l by simp
    show "its' ! k = (spec_encode (take m buf) @ drop (m * 8) its) ! k"
    proof (cases "k < m * 8")
      case True
      then have d: "k div 8 < m" by simp
      have "k < 8 * length (take m buf)" using True assms(1) by simp
      from spec_encode_nth [OF this] have
        "spec_encode (take m buf) ! k = spec_pulse (bit (buf ! (k div 8)) (7 - k mod 8))"
        using d by simp
      then show ?thesis
        using nth [OF k] True assms(1)
        by (simp add: nth_append length_spec_encode)
    next
      case False
      then show ?thesis
        using nth [OF k] assms(1) k
        by (simp add: nth_append length_spec_encode)
    qed
  qed
  with r show ?thesis
    by (simp add: neopixel_buf_to_rmt_items_def)
qed

lemma encoder_negative_len:
  "len \<le> 0 \<Longrightarrow> neopixel_buf_to_rmt_items buf len its = Some its"
  by (simp add: neopixel_buf_to_rmt_items_def bytes_loop.simps [of buf len 0 its])

text \<open>
  Claim C1.  For every byte sequence (handed to the encoder with its length, a C
  \<open>int\<close>, and a destination of at least eight descriptors per byte), the encoder
  returns and the destination then starts with exactly eight descriptors per
  byte, in the order of the bytes and, within a byte, from bit 7 down to bit 0.
  The descriptor of a set bit is (level 1 for T1H, then level 0 for T1L), that
  of a clear bit is (level 1 for T0H, then level 0 for T0L).  The rest of the
  destination is untouched.
\<close>

theorem encoder_eight_pulses_per_byte_msb_first:
  assumes "8 * length buf \<le> length its" and "int (length buf) * 8 \<le> INT_MAX"
  shows "neopixel_buf_to_rmt_items buf (int (length buf)) its =
           Some (spec_encode buf @ drop (8 * length buf) its) \<and>
         length (spec_encode buf) = 8 * length buf \<and>
         (\<forall>i k. i < length buf \<and> k < 8 \<longrightarrow>
            spec_encode buf ! (8 * i + k) =
              (if bit (buf ! i) (7 - k)
               then \<lparr>duration0 = T1H, level0 = 1, duration1 = T1L, level1 = 0\<rparr>
               else \<lparr>duration0 = T0H, level0 = 1, duration1 = T0L, level1 = 0\<rparr>))"
proof (intro conjI allI impI)
  have "length buf * 8 \<le> length its" using assms(1) by (simp add: mult.commute)
  from encoder_spec [OF order_refl this assms(2)]
  show "neopixel_buf_to_rmt_items buf (int (length buf)) its =
           Some (spec_encode buf @ drop (8 * length buf) its)"
    by (simp add: mult.commute)
next
  show "length (spec_encode buf) = 8 * length buf" by (rule length_spec_encode)
next
  fix i k :: nat assume ik: "i < length buf \<and> k < 8"
  then have "8 * i + k < 8 * length buf" by simp
  moreover have "(8 * i + k) div 8 = i" "(8 * i + k) mod 8 = k" using ik by simp_all
  ultimately show "spec_encode buf ! (8 * i + k) =
              (if bit (buf ! i) (7 - k)
               then \<lparr>duration0 = T1H, level0 = 1, duration1 = T1L, level1 = 0\<rparr>
               else \<lparr>duration0 = T0H, level0 = 1, duration1 = T0L, level1 = 0\<rparr>)"
    using spec_encode_nth [of "8 * i + k" buf] by (simp add: spec_pulse_def)
qed

theorem encoder_eight_pulses_per_byte_msb_first_witness:
  "neopixel_buf_to_rmt_items [128, 1] 2 (replicate 16 zero_item) =
     Some (spec_encode [128, 1]) \<and>
   length (spec_encode [128, 1]) = 16 \<and>
   spec_encode [128, 1] ! 0 = \<lparr>duration0 = 36, level0 = 1, duration1 = 14, level1 = 0\<rparr> \<and>
   spec_encode [128, 1] ! 1 = \<lparr>duration0 = 14, level0 = 1, duration1 = 36, level1 = 0\<rparr> \<and>
   spec_encode [128, 1] ! 15 = \<lparr>duration0 = 36, level0 = 1, duration1 = 14, level1 = 0\<rparr>"
  using encoder_eight_pulses_per_byte_msb_first [of "[128, 1]" "replicate 16 zero_item"]
  by (simp add: INT_MAX_def spec_encode_def spec_encode_byte_def spec_pulse_def
      T0H_def T0L_def T1H_def T1L_def NS_TO_TICKS_def c_div_def RMT_TICK_NS_def
      WS2812_T0H_NS_def WS2812_T0L_NS_def WS2812_T1H_NS_def WS2812_T1L_NS_def)

text \<open>
  Claim C9.  After the integer conversion from nanoseconds to ticks, a 0-bit and
  a 1-bit last equally long: T0H + T0L = T1H + T1L (50 ticks), and every
  descriptor the encoder stores has that total duration.
\<close>

theorem bit_period_same_for_both_symbols:
  "NS_TO_TICKS WS2812_T0H_NS + NS_TO_TICKS WS2812_T0L_NS =
     NS_TO_TICKS WS2812_T1H_NS + NS_TO_TICKS WS2812_T1L_NS \<and>
   NS_TO_TICKS WS2812_T0H_NS + NS_TO_TICKS WS2812_T0L_NS = 50 \<and>
   unat T0H + unat T0L = unat T1H + unat T1L \<and>
   unat (duration0 (store_bit byte j it)) + unat (duration1 (store_bit byte j it)) = 50"
  by (simp add: store_bit_def T0H_def T0L_def T1H_def T1L_def NS_TO_TICKS_def c_div_def
      RMT_TICK_NS_def WS2812_T0H_NS_def WS2812_T0L_NS_def WS2812_T1H_NS_def
      WS2812_T1L_NS_def)


section \<open>The session invariant and the release of the previous session\<close>

lemma deref_stateD:
  "deref_state w = Some s \<Longrightarrow> \<exists>p. g_state w = Some p \<and> heap w p = Some (State_block s)"
  by (simp add: deref_state_def split: option.split_asm block.split_asm)

lemma pixel_bufferD:
  "pixel_buffer w = Some ps \<Longrightarrow>
   \<exists>s px. deref_state w = Some s \<and> pixels s = Some px \<and> heap w px = Some (Pixel_block ps)"
  by (simp add: pixel_buffer_def split: option.split_asm block.split_asm)

lemma pulse_bufferD:
  "pulse_buffer w = Some its \<Longrightarrow>
   \<exists>s it. deref_state w = Some s \<and> items s = Some it \<and> heap w it = Some (Item_block its)"
  by (simp add: pulse_buffer_def split: option.split_asm block.split_asm)

lemma session_invD:
  assumes "session_inv w" "g_state w = Some p"
  shows "\<exists>s px it ps its. heap w p = Some (State_block s) \<and> pixels s = Some px \<and>
           items s = Some it \<and> heap w px = Some (Pixel_block ps) \<and>
           heap w it = Some (Item_block its) \<and> dom (heap w) = {p, px, it} \<and>
           p < next_addr w \<and> px < next_addr w \<and> it < next_addr w \<and>
           0 \<le> num_leds s \<and> num_leds s * 24 \<le> INT_MAX \<and>
           length ps = nat (num_leds s * 3) \<and> length its = nat (num_leds s * 24)"
proof -
  from assms obtain s ps its where
    a: "deref_state w = Some s" "pixel_buffer w = Some ps" "pulse_buffer w = Some its"
    and b: "dom (heap w) = set (session_blocks w)"
      "list_all (\<lambda>a. a < next_addr w) (session_blocks w)"
      "0 \<le> num_leds s" "num_leds s * 24 \<le> INT_MAX"
      "length ps = nat (num_leds s * 3)" "length its = nat (num_leds s * 24)"
    by (simp add: session_inv_def split: option.split_asm)
  from deref_stateD [OF a(1)] assms(2) have s: "heap w p = Some (State_block s)" by simp
  from pixel_bufferD [OF a(2)] a(1) obtain px where
    px: "pixels s = Some px" "heap w px = Some (Pixel_block ps)" by auto
  from pulse_bufferD [OF a(3)] a(1) obtain it where
    it: "items s = Some it" "heap w it = Some (Item_block its)" by auto
  have sb: "session_blocks w = [px, it, p]"
    using a(1) px(1) it(1) assms(2) by (simp add: session_blocks_def)
  show ?thesis
    using s px it b unfolding sb by auto
qed

lemma heap_without_session:
  assumes "dom h = {p, px, it}"
  shows "h(px := None, it := None, p := None) = Map.empty"
proof
  fix a
  show "(h(px := None, it := None, p := None)) a = None"
    using assms by (cases "h a") (auto simp add: dom_def)
qed

lemma free_previous_inv:
  assumes "session_inv w"
  shows "free_previous (esp_logi N P w) =
           (None, w\<lparr>heap := Map.empty,
                    trace := trace w @ Esp_logi N P # map Free (session_blocks w)\<rparr>)"
proof (cases "g_state w")
  case None
  with assms have "heap w = Map.empty" by (simp add: session_inv_def)
  then have "w\<lparr>heap := Map.empty\<rparr> = w" by (cases w) simp
  then show ?thesis
    using None
    by (simp add: free_previous_def esp_logi_def session_blocks_def deref_state_def)
next
  case (Some p)
  from session_invD [OF assms Some] obtain s px it ps its where
    h: "heap w p = Some (State_block s)" "pixels s = Some px" "items s = Some it"
       "heap w px = Some (Pixel_block ps)" "heap w it = Some (Item_block its)"
       "dom (heap w) = {p, px, it}"
    by blast
  have ne: "px \<noteq> p" "it \<noteq> p" "px \<noteq> it" using h by auto
  show ?thesis
    using Some h ne heap_without_session [OF h(6)]
    by (simp add: free_previous_def esp_logi_def session_blocks_def deref_state_def
        and_then_def with_state_def undefined_if_none_def c_free_ptr_def c_free_def)
qed

section \<open>The paths through initialization\<close>

lemmas flow_defs = and_then_def with_state_def undefined_if_none_def finish_def
lemmas mem_defs = c_malloc_def c_calloc_def place_def c_free_ptr_def c_free_def
  deref_state_def assign_state_def
lemmas phase_defs = alloc_state_def alloc_pixels_def alloc_items_def configure_rmt_def
  esp_call_def

lemma to_size_t_small: "0 \<le> v \<Longrightarrow> v \<le> SIZE_MAX \<Longrightarrow> to_size_t v = nat v"
  by (simp add: to_size_t_def SIZE_MAX_def)

lemma init_tail_ok:
  assumes "alloc_oracle w = True # True # True # ao" "esp_oracle w = True # True # eo"
    "0 \<le> N" "N * 96 \<le> SIZE_MAX"
  shows "init_tail P N w =
    (Returns OK_ATOM,
     w\<lparr>g_state := Some (next_addr w),
       heap := (heap w)
         (Suc (next_addr w) \<mapsto> Pixel_block (replicate (nat (N * 3)) 0),
          Suc (Suc (next_addr w)) \<mapsto> Item_block (replicate (nat (N * 24)) zero_item),
          next_addr w \<mapsto> State_block \<lparr>pin = P, num_leds = N,
            pixels = Some (Suc (next_addr w)), items = Some (Suc (Suc (next_addr w)))\<rparr>),
       next_addr := Suc (Suc (Suc (next_addr w))),
       alloc_oracle := ao, esp_oracle := eo,
       trace := trace w @
         [Malloc 16 (Some (next_addr w)),
          Calloc (nat (N * 3)) 1 (Some (Suc (next_addr w))),
          Calloc (nat (N * 24)) 4 (Some (Suc (Suc (next_addr w)))),
          Rmt_config (rmt_cfg P), Rmt_driver_install RMT_CHANNEL 0 0]\<rparr>)"
proof -
  have r: "in_int_range (N * 3)" "in_int_range (N * 3 * 8)"
    using assms(3,4) by (simp_all add: in_int_range_def INT_MIN_def INT_MAX_def SIZE_MAX_def)
  have s: "to_size_t (N * 3) = nat (N * 3)" "to_size_t (24 * N) = nat (N * 24)"
    using assms(3,4) by (simp_all add: to_size_t_small SIZE_MAX_def)
  have f: "\<not> SIZE_MAX < int (nat (N * 3)) * int sizeof_uint8_t"
    "\<not> SIZE_MAX < int (nat (N * 24)) * int sizeof_rmt_item32_t"
    using assms(3,4) by (simp_all add: sizeof_uint8_t_def sizeof_rmt_item32_t_def SIZE_MAX_def)
  show ?thesis
    using assms(1,2) r f
    by (simp add: phase_defs flow_defs mem_defs s Let_def indeterminate_state_def
        sizeof_neopixel_state_t_def sizeof_uint8_t_def sizeof_rmt_item32_t_def)
qed


lemma to_size_t_le: "int (to_size_t v) \<le> SIZE_MAX"
  by (simp add: to_size_t_def SIZE_MAX_def)

lemma not_True_hd_cases:
  "(\<forall>ao'. ao \<noteq> True # ao') \<Longrightarrow> ao = [] \<or> (\<exists>ao'. ao = False # ao')"
  by (cases ao) auto

lemmas size_defs = sizeof_neopixel_state_t_def sizeof_uint8_t_def sizeof_rmt_item32_t_def

lemma init_tail_state_fails:
  assumes "\<forall>ao. alloc_oracle w \<noteq> True # ao"
  shows "\<exists>w'. init_tail P N w = (Returns MEMORY_ERROR_ATOM, w') \<and> g_state w' = None \<and>
           heap w' = heap w \<and> next_addr w' = next_addr w \<and>
           trace w' = trace w @ [Malloc 16 None]"
  using not_True_hd_cases [OF assms]
  by (auto simp add: phase_defs flow_defs mem_defs Let_def size_defs)

lemma init_tail_undefined_3:
  assumes "alloc_oracle w = True # ao" "\<not> in_int_range (N * 3)"
  shows "\<exists>w'. init_tail P N w = (Undefined_behaviour, w') \<and>
           trace w' = trace w @ [Malloc 16 (Some (next_addr w))]"
  using assms
  by (simp add: phase_defs flow_defs mem_defs Let_def size_defs indeterminate_state_def)

lemma init_tail_pixels_fail:
  assumes "heap w = Map.empty" "alloc_oracle w = True # ao" "in_int_range (N * 3)"
    "\<forall>ao'. ao \<noteq> True # ao'"
  shows "\<exists>w'. init_tail P N w = (Returns MEMORY_ERROR_ATOM, w') \<and> g_state w' = None \<and>
           heap w' = Map.empty \<and>
           trace w' = trace w @
             [Malloc 16 (Some (next_addr w)), Calloc (to_size_t (N * 3)) 1 None,
              Free (next_addr w)]"
  using assms(1,2,3) not_True_hd_cases [OF assms(4)] to_size_t_le [of "N * 3"]
  by (auto simp add: phase_defs flow_defs mem_defs Let_def size_defs indeterminate_state_def)

lemma init_tail_undefined_24:
  assumes "alloc_oracle w = True # True # ao" "in_int_range (N * 3)"
    "\<not> in_int_range (N * 3 * 8)"
  shows "\<exists>w'. init_tail P N w = (Undefined_behaviour, w') \<and>
           trace w' = trace w @
             [Malloc 16 (Some (next_addr w)),
              Calloc (to_size_t (N * 3)) 1 (Some (Suc (next_addr w)))]"
  using assms to_size_t_le [of "N * 3"]
  by (simp add: phase_defs flow_defs mem_defs Let_def size_defs indeterminate_state_def)

lemma init_tail_items_do_not_fit:
  assumes "heap w = Map.empty" "alloc_oracle w = True # True # ao" "in_int_range (N * 3)"
    "in_int_range (N * 3 * 8)" "SIZE_MAX < int (to_size_t (N * 3 * 8)) * 4"
  shows "\<exists>w'. init_tail P N w = (Returns MEMORY_ERROR_ATOM, w') \<and> g_state w' = None \<and>
           heap w' = Map.empty \<and>
           trace w' = trace w @
             [Malloc 16 (Some (next_addr w)),
              Calloc (to_size_t (N * 3)) 1 (Some (Suc (next_addr w))),
              Calloc (to_size_t (N * 3 * 8)) 4 None,
              Free (Suc (next_addr w)), Free (next_addr w)]"
  using assms to_size_t_le [of "N * 3"]
  by (simp add: phase_defs flow_defs mem_defs Let_def size_defs indeterminate_state_def)

lemma init_tail_items_fail:
  assumes "heap w = Map.empty" "alloc_oracle w = True # True # ao" "in_int_range (N * 3)"
    "in_int_range (N * 3 * 8)" "\<not> SIZE_MAX < int (to_size_t (N * 3 * 8)) * 4"
    "\<forall>ao'. ao \<noteq> True # ao'"
  shows "\<exists>w'. init_tail P N w = (Returns MEMORY_ERROR_ATOM, w') \<and> g_state w' = None \<and>
           heap w' = Map.empty \<and>
           trace w' = trace w @
             [Malloc 16 (Some (next_addr w)),
              Calloc (to_size_t (N * 3)) 1 (Some (Suc (next_addr w))),
              Calloc (to_size_t (N * 3 * 8)) 4 None,
              Free (Suc (next_addr w)), Free (next_addr w)]"
  using assms(1-5) not_True_hd_cases [OF assms(6)] to_size_t_le [of "N * 3"]
  by (auto simp add: phase_defs flow_defs mem_defs Let_def size_defs indeterminate_state_def)

lemma init_tail_aborts:
  assumes "alloc_oracle w = True # True # True # ao" "in_int_range (N * 3)"
    "in_int_range (N * 3 * 8)" "\<not> SIZE_MAX < int (to_size_t (N * 3 * 8)) * 4"
    "\<forall>eo. esp_oracle w \<noteq> True # True # eo"
  shows "\<exists>w' t. init_tail P N w = (Aborts, w') \<and>
           trace w' = trace w @
             [Malloc 16 (Some (next_addr w)),
              Calloc (to_size_t (N * 3)) 1 (Some (Suc (next_addr w))),
              Calloc (to_size_t (N * 3 * 8)) 4 (Some (Suc (Suc (next_addr w)))),
              Rmt_config (rmt_cfg P)] @ t \<and> t \<in> {[], [Rmt_driver_install RMT_CHANNEL 0 0]}"
proof -
  have "esp_oracle w = [] \<or> (\<exists>eo. esp_oracle w = False # eo) \<or> esp_oracle w = [True] \<or>
        (\<exists>eo. esp_oracle w = True # False # eo)"
    using assms(5)
    by (cases "esp_oracle w") (auto simp add: neq_Nil_conv dest: not_True_hd_cases)
  then show ?thesis
    using assms(1-4) to_size_t_le [of "N * 3"]
    by (auto simp add: phase_defs flow_defs mem_defs Let_def size_defs indeterminate_state_def)
qed

lemma fits_iff:
  assumes "in_int_range (N * 3 * 8)"
  shows "(\<not> SIZE_MAX < int (to_size_t (N * 3 * 8)) * 4) = (0 \<le> N \<and> N * 96 \<le> SIZE_MAX)"
proof (cases "0 \<le> N")
  case True
  then have "to_size_t (N * 3 * 8) = nat (N * 24)"
    using assms by (simp add: to_size_t_def in_int_range_def INT_MAX_def)
  then show ?thesis using True by (auto simp add: SIZE_MAX_def)
next
  case False
  then have "(N * 3 * 8) mod 4294967296 = N * 24 + 4294967296"
    using assms by (simp add: in_int_range_def INT_MIN_def int_mod_pos_eq [where q = "-1"])
  then show ?thesis
    using False assms by (simp add: to_size_t_def in_int_range_def INT_MIN_def SIZE_MAX_def)
qed

lemma range_3_of_24: "in_int_range (N * 3 * 8) \<Longrightarrow> in_int_range (N * 3)"
  by (simp add: in_int_range_def INT_MIN_def INT_MAX_def)

lemma init_tail_outcome:
  assumes h: "heap w = Map.empty"
  shows "\<exists>r w' mr t. init_tail P N w = (r, w') \<and> trace w' = trace w @ Malloc 16 mr # t \<and>
      (if list_ex alloc_failed (Malloc 16 mr # t)
       then r = Returns MEMORY_ERROR_ATOM \<and> g_state w' = None \<and> heap w' = Map.empty \<and>
            all_released (Malloc 16 mr # t)
       else r = Aborts \<or> r = Undefined_behaviour \<or>
            r = Returns OK_ATOM \<and> 0 \<le> N \<and> N * 96 \<le> SIZE_MAX \<and>
            (\<exists>ao eo. alloc_oracle w = True # True # True # ao \<and>
                     esp_oracle w = True # True # eo))"
    (is ?thesis)
proof -
  have pack: "\<And>r w' mr t. init_tail P N w = (r, w') \<Longrightarrow>
      trace w' = trace w @ Malloc 16 mr # t \<Longrightarrow>
      (if list_ex alloc_failed (Malloc 16 mr # t)
       then r = Returns MEMORY_ERROR_ATOM \<and> g_state w' = None \<and> heap w' = Map.empty \<and>
            all_released (Malloc 16 mr # t)
       else r = Aborts \<or> r = Undefined_behaviour \<or>
            r = Returns OK_ATOM \<and> 0 \<le> N \<and> N * 96 \<le> SIZE_MAX \<and>
            (\<exists>ao eo. alloc_oracle w = True # True # True # ao \<and>
                     esp_oracle w = True # True # eo)) \<Longrightarrow> ?thesis"
    by blast
  show ?thesis
  proof (cases "\<exists>ao. alloc_oracle w = True # ao")
    case False
    then have "\<forall>ao. alloc_oracle w \<noteq> True # ao" by simp
    from init_tail_state_fails [OF this, of P N] obtain w' where
      "init_tail P N w = (Returns MEMORY_ERROR_ATOM, w')" "g_state w' = None"
      "heap w' = heap w" "trace w' = trace w @ [Malloc 16 None]" by blast
    then show ?thesis using h by (intro pack [of "Returns MEMORY_ERROR_ATOM" w' None "[]"]) (simp_all add: all_released_def)
  next
    case True
    then obtain ao1 where o1: "alloc_oracle w = True # ao1" by blast
    show ?thesis
    proof (cases "in_int_range (N * 3)")
      case False
      from init_tail_undefined_3 [OF o1 False, of P] obtain w' where
        "init_tail P N w = (Undefined_behaviour, w')"
        "trace w' = trace w @ [Malloc 16 (Some (next_addr w))]" by blast
      then show ?thesis by (intro pack [of "Undefined_behaviour" w' "Some (next_addr w)" "[]"]) (simp_all add: all_released_def)
    next
      case r3: True
      show ?thesis
      proof (cases "\<exists>ao. ao1 = True # ao")
        case False
        then have "\<forall>ao. ao1 \<noteq> True # ao" by simp
        from init_tail_pixels_fail [OF h o1 r3 this, of P] obtain w' where
          "init_tail P N w = (Returns MEMORY_ERROR_ATOM, w')" "g_state w' = None"
          "heap w' = Map.empty"
          "trace w' = trace w @
             [Malloc 16 (Some (next_addr w)), Calloc (to_size_t (N * 3)) 1 None,
              Free (next_addr w)]" by blast
        then show ?thesis
          by (intro pack [of "Returns MEMORY_ERROR_ATOM" w' "Some (next_addr w)"
                "[Calloc (to_size_t (N * 3)) 1 None, Free (next_addr w)]"]) (simp_all add: all_released_def)
      next
        case True
        then obtain ao2 where o2: "alloc_oracle w = True # True # ao2" using o1 by blast
        show ?thesis
        proof (cases "in_int_range (N * 3 * 8)")
          case False
          from init_tail_undefined_24 [OF o2 r3 False, of P] obtain w' where
            "init_tail P N w = (Undefined_behaviour, w')"
            "trace w' = trace w @
               [Malloc 16 (Some (next_addr w)),
                Calloc (to_size_t (N * 3)) 1 (Some (Suc (next_addr w)))]" by blast
          then show ?thesis
            by (intro pack [of "Undefined_behaviour" w' "Some (next_addr w)"
                  "[Calloc (to_size_t (N * 3)) 1 (Some (Suc (next_addr w)))]"]) (simp_all add: all_released_def)
        next
          case r24: True
          let ?t = "[Calloc (to_size_t (N * 3)) 1 (Some (Suc (next_addr w))),
                Calloc (to_size_t (N * 3 * 8)) 4 None,
                Free (Suc (next_addr w)), Free (next_addr w)]"
          show ?thesis
          proof (cases "SIZE_MAX < int (to_size_t (N * 3 * 8)) * 4")
            case True
            from init_tail_items_do_not_fit [OF h o2 r3 r24 True, of P] obtain w' where
              "init_tail P N w = (Returns MEMORY_ERROR_ATOM, w')" "g_state w' = None"
              "heap w' = Map.empty"
              "trace w' = trace w @ Malloc 16 (Some (next_addr w)) # ?t" by auto
            then show ?thesis
              by (intro pack [of "Returns MEMORY_ERROR_ATOM" w' "Some (next_addr w)" ?t]) (simp_all add: all_released_def)
          next
            case fit: False
            show ?thesis
            proof (cases "\<exists>ao. ao2 = True # ao")
              case False
              then have "\<forall>ao. ao2 \<noteq> True # ao" by simp
              from init_tail_items_fail [OF h o2 r3 r24 fit this, of P] obtain w' where
                "init_tail P N w = (Returns MEMORY_ERROR_ATOM, w')" "g_state w' = None"
                "heap w' = Map.empty"
                "trace w' = trace w @ Malloc 16 (Some (next_addr w)) # ?t" by auto
              then show ?thesis
                by (intro pack [of "Returns MEMORY_ERROR_ATOM" w' "Some (next_addr w)" ?t]) (simp_all add: all_released_def)
            next
              case True
              then obtain ao3 where o3: "alloc_oracle w = True # True # True # ao3"
                using o2 by blast
              show ?thesis
              proof (cases "\<exists>eo. esp_oracle w = True # True # eo")
                case False
                then have "\<forall>eo. esp_oracle w \<noteq> True # True # eo" by simp
                from init_tail_aborts [OF o3 r3 r24 fit this, of P] obtain w' t where
                  a: "init_tail P N w = (Aborts, w')"
                  "trace w' = trace w @ Malloc 16 (Some (next_addr w)) #
                     ([Calloc (to_size_t (N * 3)) 1 (Some (Suc (next_addr w))),
                       Calloc (to_size_t (N * 3 * 8)) 4 (Some (Suc (Suc (next_addr w)))),
                       Rmt_config (rmt_cfg P)] @ t)"
                  and t: "t \<in> {[], [Rmt_driver_install RMT_CHANNEL 0 0]}" by auto
                from a show ?thesis
                  by (rule pack) (use t in auto)
              next
                case True
                then obtain eo where e: "esp_oracle w = True # True # eo" by blast
                have n: "0 \<le> N" "N * 96 \<le> SIZE_MAX" using fits_iff [OF r24] fit by simp_all
                from init_tail_ok [OF o3 e n, of P] show ?thesis
                  by (rule pack [of _ _ "Some (next_addr w)"
                        "[Calloc (nat (N * 3)) 1 (Some (Suc (next_addr w))),
                          Calloc (nat (N * 24)) 4 (Some (Suc (Suc (next_addr w)))),
                          Rmt_config (rmt_cfg P), Rmt_driver_install RMT_CHANNEL 0 0]"])
                    (use o3 e n in simp_all)
              qed
            qed
          qed
        qed
      qed
    qed
  qed
qed

section \<open>Showing a frame in closed form\<close>

lemma transmit_eq:
  assumes "g_state w = Some p" "heap w p = Some (State_block s)" "items s = Some it"
    "heap w it = Some (Item_block its)" "c * 8 \<le> length its" "int c * 8 \<le> INT_MAX"
  shows "finish (transmit (int c) w) =
    (case esp_oracle w of
       [] \<Rightarrow> (Aborts, w\<lparr>trace := trace w @
                 [Rmt_write_items RMT_CHANNEL (take (c * 8) its) (int c * 8) False]\<rparr>)
     | False # eo \<Rightarrow> (Aborts, w\<lparr>esp_oracle := eo, trace := trace w @
                 [Rmt_write_items RMT_CHANNEL (take (c * 8) its) (int c * 8) False]\<rparr>)
     | [True] \<Rightarrow> (Aborts, w\<lparr>esp_oracle := [], trace := trace w @
                 [Rmt_write_items RMT_CHANNEL (take (c * 8) its) (int c * 8) False,
                  Rmt_wait_tx_done RMT_CHANNEL 100]\<rparr>)
     | True # ok # eo \<Rightarrow> (if ok then Returns OK_ATOM else Aborts,
               w\<lparr>esp_oracle := eo, trace := trace w @
                 [Rmt_write_items RMT_CHANNEL (take (c * 8) its) (int c * 8) False,
                  Rmt_wait_tx_done RMT_CHANNEL 100]\<rparr>))"
proof -
  have r: "in_int_range (int c * 8)"
    using assms(6) by (simp add: in_int_range_def INT_MIN_def)
  have n: "nat (int c * 8) = c * 8" by (simp add: nat_mult_distrib)
  have b: "\<not> (int c * 8 < 0 \<or> int (length its) < int c * 8)"
    using assms(5) by linarith
  show ?thesis
    using assms(1-4) r b
    by (simp add: transmit_def with_state_def deref_state_def finish_def esp_call_def n
        split: list.split bool.split)
qed

lemma show_eq:
  assumes p: "g_state w = Some p" "heap w p = Some (State_block s)"
    and px: "pixels s = Some px" "heap w px = Some (Pixel_block ps)"
    and it: "items s = Some it" "heap w it = Some (Item_block its)"
    and n: "0 \<le> num_leds s" "num_leds s * 24 \<le> INT_MAX"
    and len: "length ps = nat (num_leds s * 3)" "length its = nat (num_leds s * 24)"
    and c: "c = min (length bs) (nat (num_leds s * 3))"
  shows "nif_rmt_neopixel_show w [Binary bs] =
    finish (transmit (int c)
      (w\<lparr>heap := (heap w)
          (px \<mapsto> Pixel_block (take c bs @ drop c ps),
           it \<mapsto> Item_block (spec_encode (take c bs) @ drop (c * 8) its))\<rparr>))"
proof -
  have ne: "px \<noteq> p" "it \<noteq> p" "px \<noteq> it" using p px it by auto
  have r3: "in_int_range (num_leds s * 3)"
    using n by (simp add: in_int_range_def INT_MIN_def INT_MAX_def)
  have bc: "(if int (length bs) > num_leds s * 3 then num_leds s * 3 else int (length bs)) = int c"
    using n c by (auto simp add: min_def)
  have cb: "c \<le> length bs" "c \<le> length ps" "c * 8 \<le> length its" "int c * 8 \<le> INT_MAX"
    using c len n by (auto simp add: min_def nat_mult_distrib)
  have sz: "to_size_t (int c) = c"
    using cb(4) by (simp add: to_size_t_def INT_MAX_def)
  define w1 where "w1 = w\<lparr>heap := (heap w)(px \<mapsto> Pixel_block (take c bs @ drop c ps))\<rparr>"
  have copy: "copy_pixels bs (int c) w = Some w1"
    using p px cb by (simp add: copy_pixels_def deref_state_def c_memcpy_def sz w1_def)
  define w2 where "w2 = w\<lparr>heap := (heap w)
          (px \<mapsto> Pixel_block (take c bs @ drop c ps),
           it \<mapsto> Item_block (spec_encode (take c bs) @ drop (c * 8) its))\<rparr>"
  have enc: "encode_pixels (int c) w1 = Some w2"
  proof (cases "c = 0")
    case True
    have "(heap w)(it \<mapsto> Item_block its) = heap w" using it(2) by (simp add: fun_upd_idem)
    then have "(heap w)(px \<mapsto> Pixel_block ps, it \<mapsto> Item_block its) =
               (heap w)(px \<mapsto> Pixel_block ps)"
      using ne(3) by (metis fun_upd_twist)
    then show ?thesis
      using True p ne
      by (simp add: encode_pixels_def deref_state_def w1_def w2_def spec_encode_def)
  next
    case False
    have "c \<le> length (take c bs @ drop c ps)" using cb by simp
    from encoder_spec [OF this cb(3) cb(4)] cb(1)
    have "neopixel_buf_to_rmt_items (take c bs @ drop c ps) (int c) its =
            Some (spec_encode (take c bs) @ drop (c * 8) its)"
      by simp
    then show ?thesis
      using False p px it ne
      by (simp add: encode_pixels_def deref_state_def w1_def w2_def)
  qed
  show ?thesis
    using p r3 copy enc
    by (simp add: nif_rmt_neopixel_show_def Let_def with_state_def deref_state_def bc
        and_then_def undefined_if_none_def w2_def)
qed

section \<open>Initialization under the invariant\<close>

lemma session_invI:
  assumes "g_state w = Some p" "heap w p = Some (State_block s)"
    "pixels s = Some px" "heap w px = Some (Pixel_block ps)"
    "items s = Some it" "heap w it = Some (Item_block its)"
    "dom (heap w) = {px, it, p}" "p < next_addr w" "px < next_addr w" "it < next_addr w"
    "0 \<le> num_leds s" "num_leds s * 24 \<le> INT_MAX"
    "length ps = nat (num_leds s * 3)" "length its = nat (num_leds s * 24)"
  shows "session_inv w"
  using assms
  by (simp add: session_inv_def deref_state_def pixel_buffer_def pulse_buffer_def
      session_blocks_def)

lemma session_inv_no_session: "g_state w = None \<Longrightarrow> heap w = Map.empty \<Longrightarrow> session_inv w"
  by (simp add: session_inv_def)

lemma session_inv_boot: "session_inv (boot ao eo)"
  by (simp add: session_inv_no_session boot_def)

lemma and_then_continue: "and_then (None, w) f = f w"
  by (simp add: and_then_def)

lemma init_inv:
  assumes "session_inv w"
  shows "nif_rmt_neopixel_init w [Integer P, Integer N] =
           init_tail P N
             (w\<lparr>heap := Map.empty,
                trace := trace w @ Esp_logi N P # map Free (session_blocks w)\<rparr>)"
  by (simp add: nif_rmt_neopixel_init_def Let_def free_previous_inv [OF assms]
      and_then_continue)

lemma init_outcome:
  assumes "session_inv w"
  shows "\<exists>r w' mr t. nif_rmt_neopixel_init w [Integer P, Integer N] = (r, w') \<and>
      trace w' = trace w @ Esp_logi N P # map Free (session_blocks w) @ Malloc 16 mr # t \<and>
      (if list_ex alloc_failed (Malloc 16 mr # t)
       then r = Returns MEMORY_ERROR_ATOM \<and> g_state w' = None \<and> heap w' = Map.empty \<and>
            all_released (Malloc 16 mr # t)
       else r = Aborts \<or> r = Undefined_behaviour \<or>
            r = Returns OK_ATOM \<and> 0 \<le> N \<and> N * 96 \<le> SIZE_MAX \<and>
            (\<exists>ao eo. alloc_oracle w = True # True # True # ao \<and>
                     esp_oracle w = True # True # eo))"
proof -
  let ?w0 = "w\<lparr>heap := Map.empty,
                trace := trace w @ Esp_logi N P # map Free (session_blocks w)\<rparr>"
  have "heap ?w0 = Map.empty" by simp
  from init_tail_outcome [OF this, of P N] obtain r w' mr t where
    a: "init_tail P N ?w0 = (r, w')" and b: "trace w' = trace ?w0 @ Malloc 16 mr # t"
    and c: "if list_ex alloc_failed (Malloc 16 mr # t)
       then r = Returns MEMORY_ERROR_ATOM \<and> g_state w' = None \<and> heap w' = Map.empty \<and>
            all_released (Malloc 16 mr # t)
       else r = Aborts \<or> r = Undefined_behaviour \<or>
            r = Returns OK_ATOM \<and> 0 \<le> N \<and> N * 96 \<le> SIZE_MAX \<and>
            (\<exists>ao eo. alloc_oracle ?w0 = True # True # True # ao \<and>
                     esp_oracle ?w0 = True # True # eo)"
    by blast
  have a': "nif_rmt_neopixel_init w [Integer P, Integer N] = (r, w')"
    using a by (simp only: init_inv [OF assms])
  have b': "trace w' =
      trace w @ Esp_logi N P # map Free (session_blocks w) @ Malloc 16 mr # t"
    using b by simp
  have c': "if list_ex alloc_failed (Malloc 16 mr # t)
       then r = Returns MEMORY_ERROR_ATOM \<and> g_state w' = None \<and> heap w' = Map.empty \<and>
            all_released (Malloc 16 mr # t)
       else r = Aborts \<or> r = Undefined_behaviour \<or>
            r = Returns OK_ATOM \<and> 0 \<le> N \<and> N * 96 \<le> SIZE_MAX \<and>
            (\<exists>ao eo. alloc_oracle w = True # True # True # ao \<and>
                     esp_oracle w = True # True # eo)"
    using c by (cases "list_ex alloc_failed (Malloc 16 mr # t)") simp_all
  from a' b' c' show ?thesis by blast
qed

lemma init_ok_world:
  assumes "session_inv w" "alloc_oracle w = True # True # True # ao"
    "esp_oracle w = True # True # eo" "0 \<le> N" "N * 96 \<le> SIZE_MAX"
  shows "nif_rmt_neopixel_init w [Integer P, Integer N] =
    (Returns OK_ATOM,
     w\<lparr>g_state := Some (next_addr w),
       heap := Map.empty
         (Suc (next_addr w) \<mapsto> Pixel_block (replicate (nat (N * 3)) 0),
          Suc (Suc (next_addr w)) \<mapsto> Item_block (replicate (nat (N * 24)) zero_item),
          next_addr w \<mapsto> State_block \<lparr>pin = P, num_leds = N,
            pixels = Some (Suc (next_addr w)), items = Some (Suc (Suc (next_addr w)))\<rparr>),
       next_addr := Suc (Suc (Suc (next_addr w))),
       alloc_oracle := ao, esp_oracle := eo,
       trace := trace w @ Esp_logi N P # map Free (session_blocks w) @
         [Malloc 16 (Some (next_addr w)),
          Calloc (nat (N * 3)) 1 (Some (Suc (next_addr w))),
          Calloc (nat (N * 24)) 4 (Some (Suc (Suc (next_addr w)))),
          Rmt_config (rmt_cfg P), Rmt_driver_install RMT_CHANNEL 0 0]\<rparr>)"
  unfolding init_inv [OF assms(1)]
  using assms(2-5) by (subst init_tail_ok [where ao = ao and eo = eo]) simp_all

lemma init_ok_inversion:
  assumes "session_inv w" "nif_rmt_neopixel_init w [Integer P, Integer N] = (Returns OK_ATOM, w')"
  shows "0 \<le> N \<and> N * 96 \<le> SIZE_MAX \<and>
         (\<exists>ao eo. alloc_oracle w = True # True # True # ao \<and> esp_oracle w = True # True # eo)"
  using init_outcome [OF assms(1), of P N] assms(2) by (auto split: if_splits)

lemma init_argv_cases:
  "(length argv \<noteq> 2 \<and> nif_rmt_neopixel_init w argv = (Returns BADARITY, w)) \<or>
   (length argv = 2 \<and> \<not> (term_is_integer (argv ! 0) \<and> term_is_integer (argv ! 1)) \<and>
      nif_rmt_neopixel_init w argv = (Returns BADARG, w)) \<or>
   (\<exists>P N. argv = [Integer P, Integer N])"
proof (cases "length argv = 2")
  case False
  then show ?thesis by (simp add: nif_rmt_neopixel_init_def)
next
  case True
  then obtain a b where ab: "argv = [a, b]"
    by (metis (no_types) One_nat_def Suc_1 length_0_conv length_Suc_conv)
  show ?thesis
  proof (cases "term_is_integer a \<and> term_is_integer b")
    case True
    then show ?thesis using ab by (cases a; cases b) simp_all
  next
    case False
    then show ?thesis using ab by (auto simp add: nif_rmt_neopixel_init_def)
  qed
qed

lemma session_inv_init:
  assumes "session_inv w" "nif_rmt_neopixel_init w argv = (Returns r, w')"
  shows "session_inv w'"
proof -
  consider "w' = w" | P N where "argv = [Integer P, Integer N]"
    using init_argv_cases [of argv w] assms(2) by auto
  then show ?thesis
  proof cases
    case 1
    then show ?thesis using assms(1) by simp
  next
    case 2
    from init_outcome [OF assms(1), of P N] assms(2) 2
    consider "g_state w' = None" "heap w' = Map.empty"
      | ao eo where "r = OK_ATOM" "0 \<le> N" "N * 96 \<le> SIZE_MAX"
          "alloc_oracle w = True # True # True # ao" "esp_oracle w = True # True # eo"
      by (auto split: if_splits)
    then show ?thesis
    proof cases
      case 1
      then show ?thesis by (rule session_inv_no_session)
    next
      case 2
      note ok = init_ok_world [OF assms(1) 2(4,5,2,3), of P]
      have w': "w' = snd (nif_rmt_neopixel_init w [Integer P, Integer N])"
        using assms(2) \<open>argv = [Integer P, Integer N]\<close> by simp
      show ?thesis
        unfolding w' ok
        by (rule session_invI [where p = "next_addr w" and px = "Suc (next_addr w)"
              and it = "Suc (Suc (next_addr w))"])
          (use 2 in \<open>auto simp add: SIZE_MAX_def INT_MAX_def\<close>)
    qed
  qed
qed

lemma transmit_outcome:
  assumes "g_state w = Some p" "heap w p = Some (State_block s)" "items s = Some it"
    "heap w it = Some (Item_block its)" "c * 8 \<le> length its" "int c * 8 \<le> INT_MAX"
  shows "\<exists>r w' t. finish (transmit (int c) w) = (r, w') \<and>
      r = (if \<exists>eo. esp_oracle w = True # True # eo then Returns OK_ATOM else Aborts) \<and>
      g_state w' = g_state w \<and> heap w' = heap w \<and> next_addr w' = next_addr w \<and>
      trace w' = trace w @
        Rmt_write_items RMT_CHANNEL (take (c * 8) its) (int c * 8) False # t \<and>
      (t = [] \<or> t = [Rmt_wait_tx_done RMT_CHANNEL 100])"
  unfolding transmit_eq [OF assms]
  by (auto split: list.split bool.split)

lemma show_outcome:
  assumes inv: "session_inv w" and g: "g_state w = Some p"
  shows "\<exists>s px it ps its c r w' t.
      heap w p = Some (State_block s) \<and> pixels s = Some px \<and> items s = Some it \<and>
      heap w px = Some (Pixel_block ps) \<and> heap w it = Some (Item_block its) \<and>
      px \<noteq> p \<and> it \<noteq> p \<and> px \<noteq> it \<and>
      0 \<le> num_leds s \<and> num_leds s * 24 \<le> INT_MAX \<and>
      length ps = nat (num_leds s * 3) \<and> length its = nat (num_leds s * 24) \<and>
      c = min (length bs) (nat (num_leds s * 3)) \<and>
      nif_rmt_neopixel_show w [Binary bs] = (r, w') \<and>
      r = (if \<exists>eo. esp_oracle w = True # True # eo then Returns OK_ATOM else Aborts) \<and>
      g_state w' = g_state w \<and> next_addr w' = next_addr w \<and>
      heap w' = (heap w)
          (px \<mapsto> Pixel_block (take c bs @ drop c ps),
           it \<mapsto> Item_block (spec_encode (take c bs) @ drop (c * 8) its)) \<and>
      trace w' = trace w @
        Rmt_write_items RMT_CHANNEL (spec_encode (take c bs)) (int c * 8) False # t \<and>
      (t = [] \<or> t = [Rmt_wait_tx_done RMT_CHANNEL 100])"
proof -
  from session_invD [OF inv g] obtain s px it ps its where
    h: "heap w p = Some (State_block s)" "pixels s = Some px" "items s = Some it"
       "heap w px = Some (Pixel_block ps)" "heap w it = Some (Item_block its)"
       "0 \<le> num_leds s" "num_leds s * 24 \<le> INT_MAX"
       "length ps = nat (num_leds s * 3)" "length its = nat (num_leds s * 24)"
    by blast
  have ne: "px \<noteq> p" "it \<noteq> p" "px \<noteq> it" using h by auto
  define c where "c = min (length bs) (nat (num_leds s * 3))"
  let ?ps = "take c bs @ drop c ps"
  let ?its = "spec_encode (take c bs) @ drop (c * 8) its"
  let ?w2 = "w\<lparr>heap := (heap w)(px \<mapsto> Pixel_block ?ps, it \<mapsto> Item_block ?its)\<rparr>"
  have cb: "c \<le> length bs" "c * 8 \<le> length its" "int c * 8 \<le> INT_MAX"
    using c_def h(6-9) by (auto simp add: min_def nat_mult_distrib)
  have l: "length (spec_encode (take c bs)) = c * 8"
    using cb(1) by (simp add: length_spec_encode)
  have tk: "take (c * 8) ?its = spec_encode (take c bs)" using l by simp
  have l2: "c * 8 \<le> length ?its" using l by simp
  note eq = show_eq [OF g h(1) h(2) h(4) h(3) h(5) h(6) h(7) h(8) h(9) c_def]
  from transmit_outcome [of ?w2 p s it ?its c] g h(1,3) ne l2 cb(3)
  obtain r w' t where
    a: "finish (transmit (int c) ?w2) = (r, w')"
    and b: "r = (if \<exists>eo. esp_oracle w = True # True # eo then Returns OK_ATOM else Aborts)"
      "g_state w' = g_state w" "next_addr w' = next_addr w"
      "heap w' = (heap w)(px \<mapsto> Pixel_block ?ps, it \<mapsto> Item_block ?its)"
      "trace w' = trace w @
        Rmt_write_items RMT_CHANNEL (take (c * 8) ?its) (int c * 8) False # t"
      "t = [] \<or> t = [Rmt_wait_tx_done RMT_CHANNEL 100]"
    by auto
  have rw: "nif_rmt_neopixel_show w [Binary bs] = (r, w')" using a by (simp only: eq)
  have b5: "trace w' = trace w @
        Rmt_write_items RMT_CHANNEL (spec_encode (take c bs)) (int c * 8) False # t"
    using b(5) by (simp only: tk)
  from h ne c_def rw b(1-4) b5 b(6) show ?thesis by blast
qed

section \<open>Argument errors and calls without a session\<close>

text \<open>
  Claim C10.  In both operations the argument checks come before anything else:
  a call of show with a wrong number of arguments returns the wrong-argument-count
  result, and one whose argument is not a byte sequence returns the
  wrong-argument-type result, whatever the state is (also when no session
  exists, where a well-formed call would return the not-initialized result); the
  same holds for initialize.  The state comes back as it was passed in, and the
  result does not depend on it.
\<close>

theorem argument_errors_come_first:
  "(length argv \<noteq> 1 \<longrightarrow> nif_rmt_neopixel_show w argv = (Returns BADARITY, w)) \<and>
   (length argv = 1 \<and> \<not> term_is_binary (argv ! 0) \<longrightarrow>
      nif_rmt_neopixel_show w argv = (Returns BADARG, w)) \<and>
   (length argv \<noteq> 2 \<longrightarrow> nif_rmt_neopixel_init w argv = (Returns BADARITY, w)) \<and>
   (length argv = 2 \<and> \<not> (term_is_integer (argv ! 0) \<and> term_is_integer (argv ! 1)) \<longrightarrow>
      nif_rmt_neopixel_init w argv = (Returns BADARG, w))"
  by (auto simp add: nif_rmt_neopixel_show_def nif_rmt_neopixel_init_def)

theorem argument_errors_come_first_witness:
  "g_state (boot [] []) = None \<and>
   nif_rmt_neopixel_show (boot [] []) [] = (Returns BADARITY, boot [] []) \<and>
   nif_rmt_neopixel_show (boot [] []) [Integer 7] = (Returns BADARG, boot [] []) \<and>
   nif_rmt_neopixel_init (boot [] []) [Integer 5] = (Returns BADARITY, boot [] []) \<and>
   nif_rmt_neopixel_init (boot [] []) [Integer 5, Atom ''ten''] =
     (Returns BADARG, boot [] [])"
  using argument_errors_come_first [of "[]" "boot [] []"]
    argument_errors_come_first [of "[Integer 7]" "boot [] []"]
    argument_errors_come_first [of "[Integer 5]" "boot [] []"]
    argument_errors_come_first [of "[Integer 5, Atom ''ten'']" "boot [] []"]
  by (simp add: boot_def)

lemma init_memory_error_no_session:
  assumes "session_inv w" "nif_rmt_neopixel_init w argv = (Returns MEMORY_ERROR_ATOM, w')"
  shows "g_state w' = None \<and> heap w' = Map.empty"
proof -
  from init_argv_cases [of argv w] assms(2) obtain P N where
    a: "argv = [Integer P, Integer N]" by auto
  from init_outcome [OF assms(1), of P N] assms(2) a show ?thesis
    by (auto split: if_splits)
qed

text \<open>
  Claim C4, amended.  For every byte sequence, show returns the not-initialized
  result and leaves the whole state as it was (no buffer is written, nothing is
  recorded for the peripheral) whenever there is no session: in any state whose
  global pointer is NULL, in particular in the state the process starts in (no
  session has ever been initialized), and in the state left by an initialize
  that failed for lack of memory.
\<close>

theorem show_without_session:
  "(g_state w = None \<longrightarrow> nif_rmt_neopixel_show w [Binary bs] = (Returns ERROR_ATOM, w)) \<and>
   nif_rmt_neopixel_show (boot ao eo) [Binary bs] = (Returns ERROR_ATOM, boot ao eo) \<and>
   (session_inv w \<and> nif_rmt_neopixel_init w argv = (Returns MEMORY_ERROR_ATOM, w') \<longrightarrow>
      nif_rmt_neopixel_show w' [Binary bs] = (Returns ERROR_ATOM, w'))"
proof (intro conjI impI)
  show "nif_rmt_neopixel_show w [Binary bs] = (Returns ERROR_ATOM, w)" if "g_state w = None"
    using that by (simp add: nif_rmt_neopixel_show_def)
  show "nif_rmt_neopixel_show (boot ao eo) [Binary bs] = (Returns ERROR_ATOM, boot ao eo)"
    by (simp add: nif_rmt_neopixel_show_def boot_def)
  show "nif_rmt_neopixel_show w' [Binary bs] = (Returns ERROR_ATOM, w')"
    if "session_inv w \<and> nif_rmt_neopixel_init w argv = (Returns MEMORY_ERROR_ATOM, w')"
    using init_memory_error_no_session [of w argv w'] that
    by (simp add: nif_rmt_neopixel_show_def)
qed

text \<open>The definitions that evaluate a call on a concrete state.\<close>

lemmas eval_defs = nif_rmt_neopixel_init_def nif_rmt_neopixel_show_def boot_def
  free_previous_def esp_logi_def alloc_state_def alloc_pixels_def alloc_items_def
  configure_rmt_def esp_call_def and_then_def with_state_def undefined_if_none_def
  finish_def c_malloc_def c_calloc_def place_def c_free_ptr_def c_free_def deref_state_def
  assign_state_def indeterminate_state_def sizeof_neopixel_state_t_def sizeof_uint8_t_def
  sizeof_rmt_item32_t_def in_int_range_def INT_MIN_def INT_MAX_def SIZE_MAX_def
  to_size_t_def Let_def

theorem show_without_session_witness:
  "g_state (boot [True] []) = None \<and>
   nif_rmt_neopixel_show (boot [True] []) [Binary [1, 2, 3]] =
     (Returns ERROR_ATOM, boot [True] []) \<and>
   session_inv (boot [True] []) \<and>
   fst (nif_rmt_neopixel_init (boot [True] []) [Integer 5, Integer 1]) =
     Returns MEMORY_ERROR_ATOM \<and>
   nif_rmt_neopixel_show (snd (nif_rmt_neopixel_init (boot [True] []) [Integer 5, Integer 1]))
       [Binary [1, 2, 3]] =
     (Returns ERROR_ATOM, snd (nif_rmt_neopixel_init (boot [True] []) [Integer 5, Integer 1]))"
proof -
  let ?r = "nif_rmt_neopixel_init (boot [True] []) [Integer 5, Integer 1]"
  have f: "fst ?r = Returns MEMORY_ERROR_ATOM" by (simp add: eval_defs)
  then have a: "?r = (Returns MEMORY_ERROR_ATOM, snd ?r)" by (metis prod.collapse)
  have b: "g_state (boot [True] []) = None" by (simp add: boot_def)
  note i = session_inv_boot [of "[True]" "[]"]
  have c: "nif_rmt_neopixel_show (boot [True] []) [Binary [1, 2, 3]] =
             (Returns ERROR_ATOM, boot [True] []) \<and>
           nif_rmt_neopixel_show (snd ?r) [Binary [1, 2, 3]] = (Returns ERROR_ATOM, snd ?r)"
    using show_without_session [of "boot [True] []" "[1, 2, 3]" "[True]" "[]"
      "[Integer 5, Integer 1]" "snd ?r"] a b i
    by blast
  from f b i c show ?thesis by blast
qed

lemma session_buffers:
  assumes "deref_state w = Some s" "g_state w = Some p"
    "heap w p = Some (State_block s')" "pixels s' = Some px" "items s' = Some it"
    "heap w px = Some (Pixel_block ps)" "heap w it = Some (Item_block its)"
  shows "s' = s \<and> pixel_buffer w = Some ps \<and> pulse_buffer w = Some its \<and>
         session_blocks w = [px, it, p]"
  using assms
  by (simp add: deref_state_def pixel_buffer_def pulse_buffer_def session_blocks_def)

lemma show_with_session:
  assumes "session_inv w" and "deref_state w = Some s" and "pixel_buffer w = Some ps"
    and "esp_oracle w = True # True # eo"
  shows "\<exists>w' t. nif_rmt_neopixel_show w [Binary bs] = (Returns OK_ATOM, w') \<and>
      pixel_buffer w' =
        Some (take (min (length bs) (nat (num_leds s * 3))) bs @
              drop (min (length bs) (nat (num_leds s * 3))) ps) \<and>
      trace w' = trace w @
        Rmt_write_items RMT_CHANNEL
          (spec_encode (take (min (length bs) (nat (num_leds s * 3))) bs))
          (int (min (length bs) (nat (num_leds s * 3))) * 8) False # t"
proof -
  from deref_stateD [OF assms(2)] obtain p where g: "g_state w = Some p" by blast
  from show_outcome [OF assms(1) g, of bs] obtain s' px it ps0 its0 c r w' t where
    h: "heap w p = Some (State_block s')" "pixels s' = Some px" "items s' = Some it"
       "heap w px = Some (Pixel_block ps0)" "heap w it = Some (Item_block its0)"
    and ne: "px \<noteq> p" "it \<noteq> p" "px \<noteq> it"
    and c: "c = min (length bs) (nat (num_leds s' * 3))"
    and o: "nif_rmt_neopixel_show w [Binary bs] = (r, w')"
       "r = (if \<exists>eo. esp_oracle w = True # True # eo then Returns OK_ATOM else Aborts)"
       "g_state w' = g_state w"
       "heap w' = (heap w)
          (px \<mapsto> Pixel_block (take c bs @ drop c ps0),
           it \<mapsto> Item_block (spec_encode (take c bs) @ drop (c * 8) its0))"
       "trace w' = trace w @
          Rmt_write_items RMT_CHANNEL (spec_encode (take c bs)) (int c * 8) False # t"
    by blast
  from session_buffers [OF assms(2) g h] assms(3) have e: "s' = s" "ps0 = ps" by simp_all
  have r: "r = Returns OK_ATOM" using o(2) assms(4) by simp
  have d: "deref_state w' = Some s"
    using o(3) g h(1) ne o(4) e(1) by (simp add: deref_state_def)
  have pb: "pixel_buffer w' = Some (take c bs @ drop c ps)"
    using d h(2) e o(4) ne by (simp add: pixel_buffer_def)
  from o(1) r pb o(5) show ?thesis unfolding c e by blast
qed

text \<open>
  The claim as stated also covers a show that follows an initialize which failed
  for its arguments.  Such a call changes nothing, so a session made earlier is
  still live: after initialize(5, 1) has succeeded, initialize(6, x) with an atom
  x returns the wrong-argument-type result, and the next show of three bytes
  returns the success result, overwrites the pixel buffer and hands descriptors
  to the peripheral.
\<close>

theorem show_after_rejected_initialize_counterexample:
  "fst (nif_rmt_neopixel_init (boot [True, True, True] [True, True, True, True])
          [Integer 5, Integer 1]) = Returns OK_ATOM \<and>
   nif_rmt_neopixel_init
     (snd (nif_rmt_neopixel_init (boot [True, True, True] [True, True, True, True])
        [Integer 5, Integer 1])) [Integer 6, Atom ''x''] =
     (Returns BADARG,
      snd (nif_rmt_neopixel_init (boot [True, True, True] [True, True, True, True])
        [Integer 5, Integer 1])) \<and>
   fst (nif_rmt_neopixel_show
     (snd (nif_rmt_neopixel_init (boot [True, True, True] [True, True, True, True])
        [Integer 5, Integer 1])) [Binary [1, 2, 3]]) = Returns OK_ATOM \<and>
   fst (nif_rmt_neopixel_show
     (snd (nif_rmt_neopixel_init (boot [True, True, True] [True, True, True, True])
        [Integer 5, Integer 1])) [Binary [1, 2, 3]]) \<noteq> Returns ERROR_ATOM \<and>
   pixel_buffer
     (snd (nif_rmt_neopixel_init (boot [True, True, True] [True, True, True, True])
        [Integer 5, Integer 1])) = Some [0, 0, 0] \<and>
   pixel_buffer (snd (nif_rmt_neopixel_show
     (snd (nif_rmt_neopixel_init (boot [True, True, True] [True, True, True, True])
        [Integer 5, Integer 1])) [Binary [1, 2, 3]])) = Some [1, 2, 3] \<and>
   trace (snd (nif_rmt_neopixel_show
     (snd (nif_rmt_neopixel_init (boot [True, True, True] [True, True, True, True])
        [Integer 5, Integer 1])) [Binary [1, 2, 3]])) \<noteq>
   trace (snd (nif_rmt_neopixel_init (boot [True, True, True] [True, True, True, True])
        [Integer 5, Integer 1]))"
proof -
  let ?b = "boot [True, True, True] [True, True, True, True]"
  let ?w = "snd (nif_rmt_neopixel_init ?b [Integer 5, Integer 1])"
  have f: "fst (nif_rmt_neopixel_init ?b [Integer 5, Integer 1]) = Returns OK_ATOM"
    by (simp add: eval_defs)
  then have a: "nif_rmt_neopixel_init ?b [Integer 5, Integer 1] = (Returns OK_ATOM, ?w)"
    by (metis prod.collapse)
  have i: "session_inv ?w" by (rule session_inv_init [OF session_inv_boot a])
  have bad: "nif_rmt_neopixel_init ?w [Integer 6, Atom ''x''] = (Returns BADARG, ?w)"
    by (simp add: nif_rmt_neopixel_init_def)
  have d: "deref_state ?w = Some \<lparr>pin = 5, num_leds = 1, pixels = Some 1, items = Some 2\<rparr>"
    by (simp add: eval_defs)
  have p0: "pixel_buffer ?w = Some (replicate 3 0)"
    by (simp add: eval_defs pixel_buffer_def)
  have rep: "replicate 3 (0 :: u8) = [0, 0, 0]" by (simp add: numeral_eq_Suc)
  have p: "pixel_buffer ?w = Some [0, 0, 0]" using p0 by (simp only: rep)
  have e: "esp_oracle ?w = True # True # []" by (simp add: eval_defs)
  from show_with_session [OF i d p0 e, of "[1, 2, 3]"] obtain w' t where
    s: "nif_rmt_neopixel_show ?w [Binary [1, 2, 3]] = (Returns OK_ATOM, w')"
    and pb: "pixel_buffer w' = Some [1, 2, 3]"
    and tr: "trace w' = trace ?w @
        Rmt_write_items RMT_CHANNEL (spec_encode [1, 2, 3]) (int 3 * 8) False # t"
    by auto
  have k1: "fst (nif_rmt_neopixel_show ?w [Binary [1, 2, 3]]) = Returns OK_ATOM"
    by (simp only: s fst_conv)
  have k2: "fst (nif_rmt_neopixel_show ?w [Binary [1, 2, 3]]) \<noteq> Returns ERROR_ATOM"
    by (simp only: s fst_conv) simp
  have k3: "pixel_buffer (snd (nif_rmt_neopixel_show ?w [Binary [1, 2, 3]])) = Some [1, 2, 3]"
    using pb by (simp only: s snd_conv)
  have ne: "trace w' \<noteq> trace ?w" unfolding tr by simp
  have k4: "trace (snd (nif_rmt_neopixel_show ?w [Binary [1, 2, 3]])) \<noteq> trace ?w"
    unfolding s snd_conv by (rule ne)
  from f bad k1 k2 p k3 k4 show ?thesis by blast
qed

section \<open>Initialization: the session, the peripheral, and failure\<close>

text \<open>
  Claim C8.  After every successful call of initialize with pin P and a positive
  LED count N (from a well-formed state), the session record holds pin P and
  LED count N, its pixel buffer consists of exactly 3 * N zero bytes, and its
  pulse buffer of exactly 24 * N (zeroed) descriptors.
\<close>

theorem initialize_builds_session:
  assumes "session_inv w"
    and "nif_rmt_neopixel_init w [Integer P, Integer N] = (Returns OK_ATOM, w')"
    and "0 < N"
  shows "(\<exists>s. deref_state w' = Some s \<and> pin s = P \<and> num_leds s = N) \<and>
         pixel_buffer w' = Some (replicate (nat (3 * N)) 0) \<and>
         (\<exists>its. pulse_buffer w' = Some its \<and> length its = nat (24 * N) \<and>
                its = replicate (nat (24 * N)) zero_item)"
proof -
  from init_ok_inversion [OF assms(1,2)] obtain ao eo where
    c: "0 \<le> N" "N * 96 \<le> SIZE_MAX" "alloc_oracle w = True # True # True # ao"
       "esp_oracle w = True # True # eo"
    by blast
  have w': "w' = snd (nif_rmt_neopixel_init w [Integer P, Integer N])"
    using assms(2) by simp
  show ?thesis
    unfolding w' init_ok_world [OF assms(1) c(3,4,1,2)]
    by (simp add: deref_state_def pixel_buffer_def pulse_buffer_def mult.commute)
qed

theorem initialize_builds_session_witness:
  "session_inv (boot [True, True, True] [True, True]) \<and>
   fst (nif_rmt_neopixel_init (boot [True, True, True] [True, True]) [Integer 5, Integer 2]) =
     Returns OK_ATOM \<and>
   deref_state
     (snd (nif_rmt_neopixel_init (boot [True, True, True] [True, True])
        [Integer 5, Integer 2])) =
     Some \<lparr>pin = 5, num_leds = 2, pixels = Some 1, items = Some 2\<rparr> \<and>
   pixel_buffer
     (snd (nif_rmt_neopixel_init (boot [True, True, True] [True, True])
        [Integer 5, Integer 2])) =
     Some [0, 0, 0, 0, 0, 0] \<and>
   (\<exists>its. pulse_buffer
      (snd (nif_rmt_neopixel_init (boot [True, True, True] [True, True])
         [Integer 5, Integer 2])) = Some its \<and> length its = 48)"
proof -
  let ?w = "boot [True, True, True] [True, True]"
  let ?r = "nif_rmt_neopixel_init ?w [Integer 5, Integer 2]"
  note i = session_inv_boot [of "[True, True, True]" "[True, True]"]
  have f: "fst ?r = Returns OK_ATOM" by (simp add: eval_defs)
  then have a: "?r = (Returns OK_ATOM, snd ?r)" by (metis prod.collapse)
  have d: "deref_state (snd ?r) =
      Some \<lparr>pin = 5, num_leds = 2, pixels = Some 1, items = Some 2\<rparr>"
    by (simp add: eval_defs)
  have r: "replicate (nat (3 * 2)) (0 :: u8) = [0, 0, 0, 0, 0, 0]"
    by (simp add: numeral_eq_Suc)
  from initialize_builds_session [OF i a] f i d r show ?thesis by simp
qed

text \<open>
  Claim C7, amended.  Every successful call of initialize with pin P configures
  the peripheral exactly once, as the last driver call but one (the driver is
  installed after it), with output pin P, transmit mode, no looping, no hardware
  carrier, and the idle output enabled at level 0 (the idle line is driven low).
\<close>

theorem initialize_programs_peripheral:
  assumes "session_inv w"
    and "nif_rmt_neopixel_init w [Integer P, Integer N] = (Returns OK_ATOM, w')"
  shows "trace w' = trace w @ Esp_logi N P # map Free (session_blocks w) @
           [Malloc 16 (Some (next_addr w)),
            Calloc (nat (N * 3)) 1 (Some (Suc (next_addr w))),
            Calloc (nat (N * 24)) 4 (Some (Suc (Suc (next_addr w)))),
            Rmt_config (rmt_cfg P), Rmt_driver_install RMT_CHANNEL 0 0] \<and>
         gpio_num (rmt_cfg P) = P \<and> rmt_mode (rmt_cfg P) = RMT_MODE_TX \<and>
         channel (rmt_cfg P) = RMT_CHANNEL \<and>
         idle_output_en (tx_config (rmt_cfg P)) = True \<and>
         idle_level (tx_config (rmt_cfg P)) = 0 \<and>
         carrier_en (tx_config (rmt_cfg P)) = False \<and>
         loop_en (tx_config (rmt_cfg P)) = False"
proof -
  from init_ok_inversion [OF assms(1,2)] obtain ao eo where
    c: "0 \<le> N" "N * 96 \<le> SIZE_MAX" "alloc_oracle w = True # True # True # ao"
       "esp_oracle w = True # True # eo"
    by blast
  have w': "w' = snd (nif_rmt_neopixel_init w [Integer P, Integer N])"
    using assms(2) by simp
  show ?thesis
    unfolding w' init_ok_world [OF assms(1) c(3,4,1,2)]
    by (simp add: rmt_cfg_def)
qed

theorem initialize_programs_peripheral_witness:
  "session_inv (boot [True, True, True] [True, True]) \<and>
   fst (nif_rmt_neopixel_init (boot [True, True, True] [True, True]) [Integer 5, Integer 1]) =
     Returns OK_ATOM \<and>
   trace (snd (nif_rmt_neopixel_init (boot [True, True, True] [True, True])
            [Integer 5, Integer 1])) =
     [Esp_logi 1 5, Malloc 16 (Some 0), Calloc 3 1 (Some 1), Calloc 24 4 (Some 2),
      Rmt_config (rmt_cfg 5), Rmt_driver_install RMT_CHANNEL 0 0] \<and>
   gpio_num (rmt_cfg 5) = 5 \<and> idle_output_en (tx_config (rmt_cfg 5)) = True"
proof -
  let ?w = "boot [True, True, True] [True, True]"
  let ?r = "nif_rmt_neopixel_init ?w [Integer 5, Integer 1]"
  note i = session_inv_boot [of "[True, True, True]" "[True, True]"]
  have f: "fst ?r = Returns OK_ATOM" by (simp add: eval_defs)
  then have a: "?r = (Returns OK_ATOM, snd ?r)" by (metis prod.collapse)
  have s: "session_blocks ?w = []" "trace ?w = []" "next_addr ?w = 0"
    by (simp_all add: session_blocks_def deref_state_def boot_def)
  from initialize_programs_peripheral [OF i a] f i show ?thesis
    by (simp add: s)
qed

text \<open>
  The claim as stated says that the idle output is disabled.  The driver enables
  it: in the configuration handed to the peripheral by a successful
  initialize(5, 1) the idle-output flag is set.
\<close>

theorem initialize_idle_output_counterexample:
  "fst (nif_rmt_neopixel_init (boot [True, True, True] [True, True]) [Integer 5, Integer 1]) =
     Returns OK_ATOM \<and>
   trace (snd (nif_rmt_neopixel_init (boot [True, True, True] [True, True])
            [Integer 5, Integer 1])) =
     [Esp_logi 1 5, Malloc 16 (Some 0), Calloc 3 1 (Some 1), Calloc 24 4 (Some 2),
      Rmt_config
        \<lparr>rmt_mode = RMT_MODE_TX, channel = RMT_CHANNEL_0, clk_div = 1, gpio_num = 5,
         mem_block_num = 1,
         tx_config = \<lparr>loop_en = False, carrier_en = False, idle_output_en = True,
                       idle_level = 0\<rparr>\<rparr>,
      Rmt_driver_install RMT_CHANNEL_0 0 0] \<and>
   \<not> (idle_output_en (tx_config (rmt_cfg 5)) = False)"
  by (simp add: eval_defs rmt_cfg_def RMT_CHANNEL_def)

lemma list_ex_alloc_failed_frees:
  "list_ex alloc_failed (map Free xs) = False"
  by (induction xs) simp_all

lemma all_released_after_frees:
  assumes "all_released ys"
  shows "all_released (Esp_logi n p # map Free xs @ ys)"
proof -
  have "allocated e = None" if "e \<in> set (map Free xs)" for e
    using that by auto
  then show ?thesis
    using assms
    by (auto simp add: all_released_def list_all_iff split: option.splits)
qed

text \<open>
  Claim C5.  Whenever an allocation fails during a call of initialize (made in a
  well-formed state), the call returns the out-of-memory result, every block the
  call had allocated before is freed again by the call, no block is live
  afterwards, the global pointer is NULL, and a following show returns the
  not-initialized result.  When it is the allocation of the pulse buffer that
  fails, the blocks freed include the pixel buffer (see the witness).
\<close>

theorem initialize_out_of_memory:
  assumes "session_inv w"
    and "nif_rmt_neopixel_init w argv = (r, w')"
    and "list_ex alloc_failed (drop (length (trace w)) (trace w'))"
  shows "r = Returns MEMORY_ERROR_ATOM \<and> g_state w' = None \<and> heap w' = Map.empty \<and>
         all_released (drop (length (trace w)) (trace w')) \<and>
         nif_rmt_neopixel_show w' [Binary bs] = (Returns ERROR_ATOM, w')"
proof -
  have "w' \<noteq> w" using assms(3) by auto
  with init_argv_cases [of argv w] assms(2) obtain P N where
    a: "argv = [Integer P, Integer N]" by auto
  from init_outcome [OF assms(1), of P N] assms(2) a obtain mr t where
    t: "trace w' = trace w @ Esp_logi N P # map Free (session_blocks w) @ Malloc 16 mr # t"
    and c: "if list_ex alloc_failed (Malloc 16 mr # t)
       then r = Returns MEMORY_ERROR_ATOM \<and> g_state w' = None \<and> heap w' = Map.empty \<and>
            all_released (Malloc 16 mr # t)
       else r = Aborts \<or> r = Undefined_behaviour \<or>
            r = Returns OK_ATOM \<and> 0 \<le> N \<and> N * 96 \<le> SIZE_MAX \<and>
            (\<exists>ao eo. alloc_oracle w = True # True # True # ao \<and>
                     esp_oracle w = True # True # eo)"
    by auto
  have d: "drop (length (trace w)) (trace w') =
      Esp_logi N P # map Free (session_blocks w) @ Malloc 16 mr # t"
    by (simp add: t)
  have "list_ex alloc_failed (Malloc 16 mr # t)"
    using assms(3) unfolding d by (simp add: list_ex_alloc_failed_frees)
  with c have m: "r = Returns MEMORY_ERROR_ATOM" "g_state w' = None" "heap w' = Map.empty"
    "all_released (Malloc 16 mr # t)"
    by simp_all
  have "all_released (drop (length (trace w)) (trace w'))"
    unfolding d by (rule all_released_after_frees [OF m(4)])
  with m show ?thesis by (simp add: nif_rmt_neopixel_show_def)
qed

theorem initialize_out_of_memory_witness:
  "session_inv (boot [True, True, False] []) \<and>
   trace (snd (nif_rmt_neopixel_init (boot [True, True, False] []) [Integer 5, Integer 1])) =
     [Esp_logi 1 5, Malloc 16 (Some 0), Calloc 3 1 (Some 1), Calloc 24 4 None,
      Free 1, Free 0] \<and>
   fst (nif_rmt_neopixel_init (boot [True, True, False] []) [Integer 5, Integer 1]) =
     Returns MEMORY_ERROR_ATOM \<and>
   g_state (snd (nif_rmt_neopixel_init (boot [True, True, False] []) [Integer 5, Integer 1])) =
     None \<and>
   heap (snd (nif_rmt_neopixel_init (boot [True, True, False] []) [Integer 5, Integer 1])) =
     Map.empty \<and>
   nif_rmt_neopixel_show
     (snd (nif_rmt_neopixel_init (boot [True, True, False] []) [Integer 5, Integer 1]))
     [Binary [1, 2, 3]] =
     (Returns ERROR_ATOM,
      snd (nif_rmt_neopixel_init (boot [True, True, False] []) [Integer 5, Integer 1]))"
proof -
  let ?w = "boot [True, True, False] []"
  let ?r = "nif_rmt_neopixel_init ?w [Integer 5, Integer 1]"
  note i = session_inv_boot [of "[True, True, False]" "[]"]
  have a: "?r = (fst ?r, snd ?r)" by simp
  have t: "trace (snd ?r) =
     [Esp_logi 1 5, Malloc 16 (Some 0), Calloc 3 1 (Some 1), Calloc 24 4 None,
      Free 1, Free 0]"
    by (simp add: eval_defs)
  have f: "list_ex alloc_failed (drop (length (trace ?w)) (trace (snd ?r)))"
    unfolding t by (simp add: boot_def)
  from initialize_out_of_memory [OF i a f, of "[1, 2, 3]"] i t show ?thesis by simp
qed

section \<open>Showing a frame that does not fill the strip, or overfills it\<close>

text \<open>
  Claim C3.  In every well-formed state with a session of N LEDs, show with
  fewer than 3 * N bytes overwrites the first len(data) positions of the pixel
  buffer with the data and the first 8 * len(data) entries of the pulse buffer
  with their encoding; every later position of either buffer keeps the value it
  had before the call, no other block changes, and the session record (pin and
  LED count) is unchanged.
\<close>

theorem show_short_frame_carries_over:
  assumes "session_inv w" and "deref_state w = Some s"
    and "pixel_buffer w = Some ps" and "pulse_buffer w = Some its"
    and "int (length bs) < 3 * num_leds s"
  shows "\<exists>r w' ps' its'. nif_rmt_neopixel_show w [Binary bs] = (r, w') \<and>
      (r = Returns OK_ATOM \<or> r = Aborts) \<and>
      pixel_buffer w' = Some ps' \<and> pulse_buffer w' = Some its' \<and>
      ps' = bs @ drop (length bs) ps \<and>
      its' = spec_encode bs @ drop (8 * length bs) its \<and>
      length ps' = length ps \<and> length its' = length its \<and>
      (\<forall>i. length bs \<le> i \<and> i < length ps \<longrightarrow> ps' ! i = ps ! i) \<and>
      (\<forall>j. 8 * length bs \<le> j \<and> j < length its \<longrightarrow> its' ! j = its ! j) \<and>
      deref_state w' = Some s \<and> g_state w' = g_state w \<and>
      (\<forall>a. a \<notin> set (session_blocks w) \<longrightarrow> heap w' a = heap w a)"
proof -
  from deref_stateD [OF assms(2)] obtain p where g: "g_state w = Some p" by blast
  from show_outcome [OF assms(1) g, of bs] obtain s' px it ps0 its0 c r w' t where
    h: "heap w p = Some (State_block s')" "pixels s' = Some px" "items s' = Some it"
       "heap w px = Some (Pixel_block ps0)" "heap w it = Some (Item_block its0)"
    and ne: "px \<noteq> p" "it \<noteq> p" "px \<noteq> it"
    and n: "0 \<le> num_leds s'" "num_leds s' * 24 \<le> INT_MAX"
       "length ps0 = nat (num_leds s' * 3)" "length its0 = nat (num_leds s' * 24)"
    and c: "c = min (length bs) (nat (num_leds s' * 3))"
    and o: "nif_rmt_neopixel_show w [Binary bs] = (r, w')"
       "r = (if \<exists>eo. esp_oracle w = True # True # eo then Returns OK_ATOM else Aborts)"
       "g_state w' = g_state w"
       "heap w' = (heap w)
          (px \<mapsto> Pixel_block (take c bs @ drop c ps0),
           it \<mapsto> Item_block (spec_encode (take c bs) @ drop (c * 8) its0))"
    by blast
  from session_buffers [OF assms(2) g h] assms(3,4) have
    e: "s' = s" "ps0 = ps" "its0 = its" and sb: "session_blocks w = [px, it, p]"
    by simp_all
  have "length bs \<le> nat (num_leds s * 3)" using assms(5) by linarith
  then have cl: "c = length bs" using c e(1) by (simp add: min_def)
  let ?ps = "bs @ drop (length bs) ps"
  let ?its = "spec_encode bs @ drop (8 * length bs) its"
  have hw: "heap w' = (heap w)(px \<mapsto> Pixel_block ?ps, it \<mapsto> Item_block ?its)"
    using o(4) by (simp add: cl e mult.commute)
  have lb: "length bs \<le> length ps" "8 * length bs \<le> length its"
    using assms(5) n e by (auto simp add: nat_mult_distrib)
  have d: "deref_state w' = Some s"
    using o(3) g h(1) ne hw e(1) by (simp add: deref_state_def)
  have pb: "pixel_buffer w' = Some ?ps"
    using d h(2) e(1) hw ne by (simp add: pixel_buffer_def)
  have ib: "pulse_buffer w' = Some ?its"
    using d h(3) e(1) hw ne by (simp add: pulse_buffer_def)
  have l: "length ?ps = length ps" "length ?its = length its"
    using lb by (simp_all add: length_spec_encode)
  have k1: "\<forall>i. length bs \<le> i \<and> i < length ps \<longrightarrow> ?ps ! i = ps ! i"
    by (simp add: nth_append)
  have k2: "\<forall>j. 8 * length bs \<le> j \<and> j < length its \<longrightarrow> ?its ! j = its ! j"
    by (simp add: nth_append length_spec_encode)
  have fr: "\<forall>a. a \<notin> set (session_blocks w) \<longrightarrow> heap w' a = heap w a"
    unfolding sb hw by simp
  have r: "r = Returns OK_ATOM \<or> r = Aborts" using o(2) by simp
  from o(1) r pb ib l k1 k2 d o(3) fr show ?thesis by blast
qed


theorem show_short_frame_carries_over_witness:
  "session_inv (snd (nif_rmt_neopixel_init (boot [True, True, True] [True, True, True, True])
      [Integer 5, Integer 2])) \<and>
   pixel_buffer (snd (nif_rmt_neopixel_init (boot [True, True, True] [True, True, True, True])
      [Integer 5, Integer 2])) = Some (replicate 6 0) \<and>
   pulse_buffer (snd (nif_rmt_neopixel_init (boot [True, True, True] [True, True, True, True])
      [Integer 5, Integer 2])) = Some (replicate 48 zero_item) \<and>
   int (length [1 :: u8, 2, 3]) < 3 * 2 \<and>
   (\<exists>r w'. nif_rmt_neopixel_show
        (snd (nif_rmt_neopixel_init (boot [True, True, True] [True, True, True, True])
           [Integer 5, Integer 2])) [Binary [1, 2, 3]] = (r, w') \<and>
      pixel_buffer w' = Some ([1, 2, 3] @ replicate 3 0) \<and>
      pulse_buffer w' = Some (spec_encode [1, 2, 3] @ replicate 24 zero_item) \<and>
      deref_state w' =
        Some \<lparr>pin = 5, num_leds = 2, pixels = Some 1, items = Some 2\<rparr>)"
proof -
  let ?b = "boot [True, True, True] [True, True, True, True]"
  let ?w = "snd (nif_rmt_neopixel_init ?b [Integer 5, Integer 2])"
  have f: "fst (nif_rmt_neopixel_init ?b [Integer 5, Integer 2]) = Returns OK_ATOM"
    by (simp add: eval_defs)
  then have a: "nif_rmt_neopixel_init ?b [Integer 5, Integer 2] = (Returns OK_ATOM, ?w)"
    by (metis prod.collapse)
  have i: "session_inv ?w" by (rule session_inv_init [OF session_inv_boot a])
  have d: "deref_state ?w = Some \<lparr>pin = 5, num_leds = 2, pixels = Some 1, items = Some 2\<rparr>"
    by (simp add: eval_defs)
  have p: "pixel_buffer ?w = Some (replicate 6 0)"
    by (simp add: eval_defs pixel_buffer_def)
  have q: "pulse_buffer ?w = Some (replicate 48 zero_item)"
    by (simp add: eval_defs pulse_buffer_def)
  have l: "int (length [1 :: u8, 2, 3]) <
      3 * num_leds \<lparr>pin = 5, num_leds = 2, pixels = Some 1, items = Some 2\<rparr>"
    by simp
  from show_short_frame_carries_over [OF i d p q l] i p q show ?thesis
    by auto
qed

text \<open>
  Claim C2.  In every well-formed state with a session of N LEDs, show with more
  than 3 * N bytes copies exactly the first 3 * N bytes into the pixel buffer,
  encodes exactly those, and hands exactly 3 * N * 8 descriptors to the
  peripheral; the call does the same as the call with only the first 3 * N bytes
  (the bytes beyond are never read).  No error is returned for the oversized
  input: the call returns the success result whenever the two driver calls report
  success (otherwise \<open>ESP_ERROR_CHECK\<close> aborts, as it does for input of any size).
\<close>

theorem show_long_frame_truncated:
  assumes "session_inv w" and "deref_state w = Some s"
    and "3 * num_leds s < int (length bs)"
  shows "\<exists>r w' t. nif_rmt_neopixel_show w [Binary bs] = (r, w') \<and>
      r = (if \<exists>eo. esp_oracle w = True # True # eo then Returns OK_ATOM else Aborts) \<and>
      pixel_buffer w' = Some (take (nat (3 * num_leds s)) bs) \<and>
      pulse_buffer w' = Some (spec_encode (take (nat (3 * num_leds s)) bs)) \<and>
      trace w' = trace w @
        Rmt_write_items RMT_CHANNEL (spec_encode (take (nat (3 * num_leds s)) bs))
          (3 * num_leds s * 8) False # t \<and>
      (t = [] \<or> t = [Rmt_wait_tx_done RMT_CHANNEL 100]) \<and>
      length (spec_encode (take (nat (3 * num_leds s)) bs)) = nat (3 * num_leds s * 8) \<and>
      nif_rmt_neopixel_show w [Binary bs] =
        nif_rmt_neopixel_show w [Binary (take (nat (3 * num_leds s)) bs)]"
proof -
  from deref_stateD [OF assms(2)] obtain p where g: "g_state w = Some p" by blast
  from show_outcome [OF assms(1) g, of bs] obtain s' px it ps its c r w' t where
    h: "heap w p = Some (State_block s')" "pixels s' = Some px" "items s' = Some it"
       "heap w px = Some (Pixel_block ps)" "heap w it = Some (Item_block its)"
    and ne: "px \<noteq> p" "it \<noteq> p" "px \<noteq> it"
    and n: "0 \<le> num_leds s'" "num_leds s' * 24 \<le> INT_MAX"
       "length ps = nat (num_leds s' * 3)" "length its = nat (num_leds s' * 24)"
    and c: "c = min (length bs) (nat (num_leds s' * 3))"
    and o: "nif_rmt_neopixel_show w [Binary bs] = (r, w')"
       "r = (if \<exists>eo. esp_oracle w = True # True # eo then Returns OK_ATOM else Aborts)"
       "g_state w' = g_state w"
       "heap w' = (heap w)
          (px \<mapsto> Pixel_block (take c bs @ drop c ps),
           it \<mapsto> Item_block (spec_encode (take c bs) @ drop (c * 8) its))"
       "trace w' = trace w @
          Rmt_write_items RMT_CHANNEL (spec_encode (take c bs)) (int c * 8) False # t"
       "t = [] \<or> t = [Rmt_wait_tx_done RMT_CHANNEL 100]"
    by blast
  from session_buffers [OF assms(2) g h] have e: "s' = s" by simp
  have "nat (num_leds s * 3) \<le> length bs" using assms(3) by linarith
  then have cl: "c = nat (3 * num_leds s)" using c e by (simp add: min_def mult.commute)
  have ic: "int c = 3 * num_leds s" using cl n(1) e by simp
  have full: "length ps = c" "length its = c * 8"
    using n cl e by (simp_all add: mult.commute nat_mult_distrib)
  have ltk: "length (take c bs) = c" using cl assms(3) by simp
  have hw: "heap w' = (heap w)
      (px \<mapsto> Pixel_block (take c bs), it \<mapsto> Item_block (spec_encode (take c bs)))"
    using o(4) full by simp
  have d: "deref_state w' = Some s"
    using o(3) g h(1) ne hw e by (simp add: deref_state_def)
  have pb: "pixel_buffer w' = Some (take c bs)"
    using d h(2) e hw ne by (simp add: pixel_buffer_def)
  have ib: "pulse_buffer w' = Some (spec_encode (take c bs))"
    using d h(3) e hw ne by (simp add: pulse_buffer_def)
  have ls: "length (spec_encode (take c bs)) = nat (3 * num_leds s * 8)"
    using ltk ic n(1) e by (simp add: length_spec_encode nat_mult_distrib cl)
  have c2: "c = min (length (take c bs)) (nat (num_leds s' * 3))"
    using ltk cl e by (simp add: mult.commute)
  have same: "nif_rmt_neopixel_show w [Binary bs] =
      nif_rmt_neopixel_show w [Binary (take c bs)]"
    unfolding show_eq [OF g h(1) h(2) h(4) h(3) h(5) n c]
      show_eq [OF g h(1) h(2) h(4) h(3) h(5) n c2]
    by simp
  have tr: "trace w' = trace w @
      Rmt_write_items RMT_CHANNEL (spec_encode (take c bs)) (3 * num_leds s * 8) False # t"
    using o(5) ic by simp
  from o(1,2) pb ib tr o(6) ls same show ?thesis unfolding cl by blast
qed

theorem show_long_frame_truncated_witness:
  "session_inv (snd (nif_rmt_neopixel_init (boot [True, True, True] [True, True, True, True])
      [Integer 5, Integer 1])) \<and>
   3 * 1 < int (length [1 :: u8, 2, 3, 4, 5]) \<and>
   (\<exists>w'. nif_rmt_neopixel_show
        (snd (nif_rmt_neopixel_init (boot [True, True, True] [True, True, True, True])
           [Integer 5, Integer 1])) [Binary [1, 2, 3, 4, 5]] = (Returns OK_ATOM, w') \<and>
      pixel_buffer w' = Some [1, 2, 3] \<and>
      pulse_buffer w' = Some (spec_encode [1, 2, 3]) \<and>
      length (spec_encode [1 :: u8, 2, 3]) = 24) \<and>
   nif_rmt_neopixel_show
     (snd (nif_rmt_neopixel_init (boot [True, True, True] [True, True, True, True])
        [Integer 5, Integer 1])) [Binary [1, 2, 3, 4, 5]] =
   nif_rmt_neopixel_show
     (snd (nif_rmt_neopixel_init (boot [True, True, True] [True, True, True, True])
        [Integer 5, Integer 1])) [Binary [1, 2, 3]]"
proof -
  let ?b = "boot [True, True, True] [True, True, True, True]"
  let ?w = "snd (nif_rmt_neopixel_init ?b [Integer 5, Integer 1])"
  have f: "fst (nif_rmt_neopixel_init ?b [Integer 5, Integer 1]) = Returns OK_ATOM"
    by (simp add: eval_defs)
  then have a: "nif_rmt_neopixel_init ?b [Integer 5, Integer 1] = (Returns OK_ATOM, ?w)"
    by (metis prod.collapse)
  have i: "session_inv ?w" by (rule session_inv_init [OF session_inv_boot a])
  have d: "deref_state ?w = Some \<lparr>pin = 5, num_leds = 1, pixels = Some 1, items = Some 2\<rparr>"
    by (simp add: eval_defs)
  have e: "esp_oracle ?w = [True, True]" by (simp add: eval_defs)
  have l: "3 * num_leds \<lparr>pin = 5, num_leds = 1, pixels = Some 1, items = Some 2\<rparr>
      < int (length [1 :: u8, 2, 3, 4, 5])"
    by simp
  have t: "take (nat (3 * 1)) [1 :: u8, 2, 3, 4, 5] = [1, 2, 3]"
    by (simp add: numeral_eq_Suc)
  from show_long_frame_truncated [OF i d l] i e t show ?thesis
    by auto
qed

section \<open>At most one live session\<close>

lemma show_argv_cases:
  "(length argv \<noteq> 1 \<and> nif_rmt_neopixel_show w argv = (Returns BADARITY, w)) \<or>
   (length argv = 1 \<and> \<not> term_is_binary (argv ! 0) \<and>
      nif_rmt_neopixel_show w argv = (Returns BADARG, w)) \<or>
   (\<exists>bs. argv = [Binary bs])"
proof (cases "length argv = 1")
  case False
  then show ?thesis by (simp add: nif_rmt_neopixel_show_def)
next
  case True
  then obtain a where a: "argv = [a]"
    by (metis (no_types) One_nat_def length_0_conv length_Suc_conv)
  show ?thesis using a by (cases a) (simp_all add: nif_rmt_neopixel_show_def)
qed

lemma session_inv_show:
  assumes "session_inv w" "nif_rmt_neopixel_show w argv = (r, w')"
  shows "session_inv w'"
proof -
  consider "w' = w" | bs p where "argv = [Binary bs]" "g_state w = Some p"
  proof -
    from show_argv_cases [of argv w] assms(2)
    consider "w' = w" | bs where "argv = [Binary bs]" by auto
    then show ?thesis
    proof cases
      case 1
      then show ?thesis by (rule that(1))
    next
      case 2
      show ?thesis
      proof (cases "g_state w")
        case None
        then have "w' = w" using assms(2) 2 by (simp add: nif_rmt_neopixel_show_def)
        then show ?thesis by (rule that(1))
      next
        case (Some p)
        with 2 show ?thesis by (rule that(2))
      qed
    qed
  qed
  then show ?thesis
  proof cases
    case 1
    then show ?thesis using assms(1) by simp
  next
    case 2
    from show_outcome [OF assms(1) 2(2), of bs]
    obtain s px it ps its c r0 w0 where
      h: "heap w p = Some (State_block s)" "pixels s = Some px" "items s = Some it"
         "heap w px = Some (Pixel_block ps)" "heap w it = Some (Item_block its)"
      and ne: "px \<noteq> p" "it \<noteq> p" "px \<noteq> it"
      and n: "0 \<le> num_leds s" "num_leds s * 24 \<le> INT_MAX"
         "length ps = nat (num_leds s * 3)" "length its = nat (num_leds s * 24)"
      and c: "c = min (length bs) (nat (num_leds s * 3))"
      and o0: "nif_rmt_neopixel_show w [Binary bs] = (r0, w0)"
         "g_state w0 = g_state w" "next_addr w0 = next_addr w"
         "heap w0 = (heap w)
            (px \<mapsto> Pixel_block (take c bs @ drop c ps),
             it \<mapsto> Item_block (spec_encode (take c bs) @ drop (c * 8) its))"
      by blast
    have "w0 = w'" using o0(1) assms(2) 2(1) by simp
    with o0 have o: "g_state w' = g_state w" "next_addr w' = next_addr w"
         "heap w' = (heap w)
            (px \<mapsto> Pixel_block (take c bs @ drop c ps),
             it \<mapsto> Item_block (spec_encode (take c bs) @ drop (c * 8) its))"
      by simp_all
    from session_invD [OF assms(1) 2(2)] obtain s1 px1 it1 where
      b1: "heap w p = Some (State_block s1)" "pixels s1 = Some px1" "items s1 = Some it1"
        "dom (heap w) = {p, px1, it1}" "p < next_addr w" "px1 < next_addr w"
        "it1 < next_addr w"
      by blast
    have "s1 = s" using b1(1) h(1) by simp
    then have "px1 = px" "it1 = it" using b1(2,3) h(2,3) by simp_all
    with b1 have
      b: "dom (heap w) = {p, px, it}" "p < next_addr w" "px < next_addr w" "it < next_addr w"
      by simp_all
    have cb: "c \<le> length bs" "c \<le> length ps" "c * 8 \<le> length its"
      using c n by (auto simp add: min_def nat_mult_distrib)
    show ?thesis
    proof (rule session_invI [where p = p and s = s and px = px and it = it])
      show "g_state w' = Some p" using o(1) 2(2) by simp
      show "heap w' p = Some (State_block s)" using o(3) h(1) ne by simp
      show "pixels s = Some px" "items s = Some it" by (rule h(2), rule h(3))
      show "heap w' px = Some (Pixel_block (take c bs @ drop c ps))" using o(3) ne by simp
      show "heap w' it = Some (Item_block (spec_encode (take c bs) @ drop (c * 8) its))"
        using o(3) by simp
      show "dom (heap w') = {px, it, p}" using o(3) b(1) by auto
      show "p < next_addr w'" "px < next_addr w'" "it < next_addr w'"
        using o(2) b by simp_all
      show "0 \<le> num_leds s" "num_leds s * 24 \<le> INT_MAX" by (rule n(1), rule n(2))
      show "length (take c bs @ drop c ps) = nat (num_leds s * 3)"
        using cb n(3) by simp
      show "length (spec_encode (take c bs) @ drop (c * 8) its) = nat (num_leds s * 24)"
        using cb n(4) by (simp add: length_spec_encode)
    qed
  qed
qed

lemma session_inv_run:
  "session_inv w \<Longrightarrow> run cs w = Some w' \<Longrightarrow> session_inv w'"
proof (induction cs arbitrary: w)
  case Nil
  then show ?case by simp
next
  case (Cons c cs)
  obtain r w1 where p: "perform c w = (r, w1)" by (cases "perform c w")
  with Cons.prems(2) obtain v where r: "r = Returns v" and rest: "run cs w1 = Some w'"
    by (cases r) simp_all
  have "session_inv w1"
  proof (cases c)
    case (Initialize argv)
    with p r Cons.prems(1) show ?thesis by (auto intro: session_inv_init)
  next
    case (Show argv)
    with p Cons.prems(1) show ?thesis by (auto intro: session_inv_show)
  qed
  from Cons.IH [OF this rest] show ?case .
qed

lemma session_blocks_cover:
  assumes "session_inv w"
  shows "dom (heap w) = set (session_blocks w) \<and> length (session_blocks w) \<le> 3 \<and>
         (\<forall>a \<in> set (session_blocks w). a < next_addr w)"
proof (cases "g_state w")
  case None
  then show ?thesis using assms by (simp add: session_inv_def session_blocks_def deref_state_def)
next
  case (Some p)
  from session_invD [OF assms Some] obtain s px it where
    "heap w p = Some (State_block s)" "pixels s = Some px" "items s = Some it"
    "dom (heap w) = {p, px, it}" "p < next_addr w" "px < next_addr w" "it < next_addr w"
    by blast
  then show ?thesis using Some by (auto simp add: session_blocks_def deref_state_def)
qed

lemma live_after_append: "live_after (xs @ ys) l = live_after ys (live_after xs l)"
  by (induction xs arbitrary: l) simp_all

lemma length_le_peak_live: "length l \<le> peak_live xs l"
  by (cases xs) simp_all

lemma peak_live_append:
  "peak_live (xs @ ys) l = max (peak_live xs l) (peak_live ys (live_after xs l))"
proof (induction xs arbitrary: l)
  case Nil
  show ?case using length_le_peak_live [of l ys] by simp
next
  case (Cons e xs)
  then show ?case by (simp add: max.assoc)
qed

lemma length_live_after_le_peak: "length (live_after xs l) \<le> peak_live xs l"
  by (induction xs arbitrary: l) (simp_all add: le_max_iff_disj)

lemma live_after_frees: "set l \<subseteq> set xs \<Longrightarrow> live_after (map Free xs) l = []"
proof (induction xs arbitrary: l)
  case Nil
  then show ?case by simp
next
  case (Cons a xs)
  have "set (removeAll a l) \<subseteq> set xs" using Cons.prems by auto
  from Cons.IH [OF this] show ?case by simp
qed

lemma peak_live_frees: "peak_live (map Free xs) l \<le> length l"
proof (induction xs arbitrary: l)
  case Nil
  then show ?case by simp
next
  case (Cons a xs)
  have "peak_live (map Free xs) (removeAll a l) \<le> length (removeAll a l)" by (rule Cons.IH)
  also have "\<dots> \<le> length l" by (rule length_removeAll_less_eq)
  finally show ?case by simp
qed

lemma init_tail_live:
  assumes h: "heap w = Map.empty" and ret: "init_tail P N w = (r, w')"
  shows "\<exists>ev. trace w' = trace w @ ev \<and> peak_live ev [] \<le> 3 \<and>
           ((\<exists>v. r = Returns v) \<longrightarrow>
              set (live_after ev []) = dom (heap w') \<and> distinct (live_after ev []))"
proof (cases "\<exists>ao. alloc_oracle w = True # ao")
  case False
  then have "\<forall>ao. alloc_oracle w \<noteq> True # ao" by simp
  from init_tail_state_fails [OF this, of P N] ret h have
    "heap w' = Map.empty" "trace w' = trace w @ [Malloc 16 None]" by auto
  then show ?thesis by simp
next
  case True
  then obtain ao1 where o1: "alloc_oracle w = True # ao1" by blast
  show ?thesis
  proof (cases "in_int_range (N * 3)")
    case False
    from init_tail_undefined_3 [OF o1 False, of P] ret have
      "r = Undefined_behaviour" "trace w' = trace w @ [Malloc 16 (Some (next_addr w))]"
      by auto
    then show ?thesis by simp
  next
    case r3: True
    show ?thesis
    proof (cases "\<exists>ao. ao1 = True # ao")
      case False
      then have "\<forall>ao. ao1 \<noteq> True # ao" by simp
      from init_tail_pixels_fail [OF h o1 r3 this, of P] ret have
        "heap w' = Map.empty"
        "trace w' = trace w @
             [Malloc 16 (Some (next_addr w)), Calloc (to_size_t (N * 3)) 1 None,
              Free (next_addr w)]" by auto
      then show ?thesis by simp
    next
      case True
      then obtain ao2 where o2: "alloc_oracle w = True # True # ao2" using o1 by blast
      show ?thesis
      proof (cases "in_int_range (N * 3 * 8)")
        case False
        from init_tail_undefined_24 [OF o2 r3 False, of P] ret have
          "r = Undefined_behaviour"
          "trace w' = trace w @
             [Malloc 16 (Some (next_addr w)),
              Calloc (to_size_t (N * 3)) 1 (Some (Suc (next_addr w)))]"
          by auto
        then show ?thesis by simp
      next
        case r24: True
        show ?thesis
        proof (cases "SIZE_MAX < int (to_size_t (N * 3 * 8)) * 4")
          case True
          from init_tail_items_do_not_fit [OF h o2 r3 r24 True, of P] ret have
            "heap w' = Map.empty"
            "trace w' = trace w @
             [Malloc 16 (Some (next_addr w)),
              Calloc (to_size_t (N * 3)) 1 (Some (Suc (next_addr w))),
              Calloc (to_size_t (N * 3 * 8)) 4 None,
              Free (Suc (next_addr w)), Free (next_addr w)]" by auto
          then show ?thesis by simp
        next
          case fit: False
          show ?thesis
          proof (cases "\<exists>ao. ao2 = True # ao")
            case False
            then have "\<forall>ao. ao2 \<noteq> True # ao" by simp
            from init_tail_items_fail [OF h o2 r3 r24 fit this, of P] ret have
              "heap w' = Map.empty"
              "trace w' = trace w @
               [Malloc 16 (Some (next_addr w)),
                Calloc (to_size_t (N * 3)) 1 (Some (Suc (next_addr w))),
                Calloc (to_size_t (N * 3 * 8)) 4 None,
                Free (Suc (next_addr w)), Free (next_addr w)]" by auto
            then show ?thesis by simp
          next
            case True
            then obtain ao3 where o3: "alloc_oracle w = True # True # True # ao3"
              using o2 by blast
            show ?thesis
            proof (cases "\<exists>eo. esp_oracle w = True # True # eo")
              case False
              then have "\<forall>eo. esp_oracle w \<noteq> True # True # eo" by simp
              from init_tail_aborts [OF o3 r3 r24 fit this, of P] ret obtain t where
                "r = Aborts"
                "trace w' = trace w @
                   [Malloc 16 (Some (next_addr w)),
                    Calloc (to_size_t (N * 3)) 1 (Some (Suc (next_addr w))),
                    Calloc (to_size_t (N * 3 * 8)) 4 (Some (Suc (Suc (next_addr w)))),
                    Rmt_config (rmt_cfg P)] @ t"
                "t = [] \<or> t = [Rmt_driver_install RMT_CHANNEL 0 0]"
                by auto
              then show ?thesis by auto
            next
              case True
              then obtain eo where e: "esp_oracle w = True # True # eo" by blast
              have n: "0 \<le> N" "N * 96 \<le> SIZE_MAX" using fits_iff [OF r24] fit by simp_all
              have w': "w' = snd (init_tail P N w)" using ret by simp
              show ?thesis
                unfolding w' init_tail_ok [OF o3 e n, of P]
                by (rule exI [of _ "[Malloc 16 (Some (next_addr w)),
                      Calloc (nat (N * 3)) 1 (Some (Suc (next_addr w))),
                      Calloc (nat (N * 24)) 4 (Some (Suc (Suc (next_addr w)))),
                      Rmt_config (rmt_cfg P), Rmt_driver_install RMT_CHANNEL 0 0]"])
                  (auto simp add: h)
            qed
          qed
        qed
      qed
    qed
  qed
qed

lemma init_live:
  assumes inv: "session_inv w"
    and L: "set (live_after (trace w) []) = dom (heap w)"
      "distinct (live_after (trace w) [])" "peak_live (trace w) [] \<le> 3"
    and call: "nif_rmt_neopixel_init w argv = (r, w')"
  shows "peak_live (trace w') [] \<le> 3 \<and>
         ((\<exists>v. r = Returns v) \<longrightarrow>
            set (live_after (trace w') []) = dom (heap w') \<and>
            distinct (live_after (trace w') []))"
proof -
  from init_argv_cases [of argv w] call
  consider "w' = w" | P N where "argv = [Integer P, Integer N]" by auto
  then show ?thesis
  proof cases
    case 1
    then show ?thesis using L by simp
  next
    case 2
    let ?L = "live_after (trace w) []"
    let ?pre = "Esp_logi N P # map Free (session_blocks w)"
    let ?w0 = "w\<lparr>heap := Map.empty, trace := trace w @ ?pre\<rparr>"
    have t: "init_tail P N ?w0 = (r, w')"
      using call 2 by (simp only: init_inv [OF inv])
    have "heap ?w0 = Map.empty" by simp
    from init_tail_live [OF this t] obtain ev where
      ev: "trace w' = trace ?w0 @ ev" "peak_live ev [] \<le> 3"
        "(\<exists>v. r = Returns v) \<longrightarrow>
           set (live_after ev []) = dom (heap w') \<and> distinct (live_after ev [])"
      by blast
    have cover: "dom (heap w) = set (session_blocks w)"
      using session_blocks_cover [OF inv] by simp
    have l0: "live_after ?pre ?L = []"
      using L(1) cover by (simp add: live_after_frees)
    have p0: "peak_live ?pre ?L \<le> length ?L"
      using peak_live_frees [of "session_blocks w" ?L] by simp
    have ll: "length ?L \<le> 3"
      using length_live_after_le_peak [of "trace w" "[]"] L(3) by simp
    have tr: "trace w' = trace w @ ?pre @ ev" using ev(1) by simp
    have la: "live_after (trace w') [] = live_after ev []"
      unfolding tr by (simp only: live_after_append l0)
    have pk: "peak_live (trace w') [] =
        max (peak_live (trace w) []) (max (peak_live ?pre ?L) (peak_live ev []))"
      unfolding tr by (simp only: peak_live_append live_after_append l0)
    show ?thesis
      using la pk ev(2,3) L(3) p0 ll by simp
  qed
qed

lemma show_live:
  assumes inv: "session_inv w"
    and L: "set (live_after (trace w) []) = dom (heap w)"
      "distinct (live_after (trace w) [])" "peak_live (trace w) [] \<le> 3"
    and call: "nif_rmt_neopixel_show w argv = (r, w')"
  shows "set (live_after (trace w') []) = dom (heap w') \<and>
         distinct (live_after (trace w') []) \<and> peak_live (trace w') [] \<le> 3"
proof -
  have "w' = w \<or> (\<exists>bs p. argv = [Binary bs] \<and> g_state w = Some p)"
  proof (cases "\<exists>bs. argv = [Binary bs]")
    case False
    with show_argv_cases [of argv w] call show ?thesis by auto
  next
    case True
    then obtain bs where a: "argv = [Binary bs]" by blast
    show ?thesis
    proof (cases "g_state w")
      case None
      then have "w' = w" using call a by (simp add: nif_rmt_neopixel_show_def)
      then show ?thesis by simp
    next
      case (Some p)
      with a show ?thesis by simp
    qed
  qed
  then consider "w' = w" | bs p where "argv = [Binary bs]" "g_state w = Some p" by blast
  then show ?thesis
  proof cases
    case 1
    then show ?thesis using L by simp
  next
    case 2
    from show_outcome [OF inv 2(2), of bs]
    obtain s px it ps its c r0 w0 t where
      h: "heap w px = Some (Pixel_block ps)" "heap w it = Some (Item_block its)"
      and o0: "nif_rmt_neopixel_show w [Binary bs] = (r0, w0)"
        "heap w0 = (heap w)
            (px \<mapsto> Pixel_block (take c bs @ drop c ps),
             it \<mapsto> Item_block (spec_encode (take c bs) @ drop (c * 8) its))"
        "trace w0 = trace w @
           Rmt_write_items RMT_CHANNEL (spec_encode (take c bs)) (int c * 8) False # t"
        "t = [] \<or> t = [Rmt_wait_tx_done RMT_CHANNEL 100]"
      by blast
    have e: "w0 = w'" using o0(1) call 2(1) by simp
    have d: "dom (heap w') = dom (heap w)" using o0(2) h e by auto
    let ?L = "live_after (trace w) []"
    let ?ev = "Rmt_write_items RMT_CHANNEL (spec_encode (take c bs)) (int c * 8) False # t"
    have l: "live_after ?ev ?L = ?L" "peak_live ?ev ?L = length ?L"
      using o0(4) by auto
    have tr: "trace w' = trace w @ ?ev" using o0(3) e by simp
    have la: "live_after (trace w') [] = ?L"
      unfolding tr by (simp only: live_after_append l)
    have pk: "peak_live (trace w') [] = max (peak_live (trace w) []) (length ?L)"
      unfolding tr by (simp only: peak_live_append l)
    have ll: "length ?L \<le> 3"
      using length_live_after_le_peak [of "trace w" "[]"] L(3) by simp
    show ?thesis using la pk d L ll by simp
  qed
qed

lemma run_live:
  "session_inv w \<Longrightarrow> set (live_after (trace w) []) = dom (heap w) \<Longrightarrow>
   distinct (live_after (trace w) []) \<Longrightarrow> peak_live (trace w) [] \<le> 3 \<Longrightarrow>
   run cs w = Some w' \<Longrightarrow>
   set (live_after (trace w') []) = dom (heap w') \<and>
   distinct (live_after (trace w') []) \<and> peak_live (trace w') [] \<le> 3"
proof (induction cs arbitrary: w)
  case Nil
  then show ?case by simp
next
  case (Cons c cs)
  obtain r w1 where p: "perform c w = (r, w1)" by (cases "perform c w")
  with Cons.prems(5) obtain v where r: "r = Returns v" and rest: "run cs w1 = Some w'"
    by (cases r) simp_all
  have "session_inv w1 \<and> set (live_after (trace w1) []) = dom (heap w1) \<and>
        distinct (live_after (trace w1) []) \<and> peak_live (trace w1) [] \<le> 3"
  proof (cases c)
    case (Initialize argv)
    then have call: "nif_rmt_neopixel_init w argv = (Returns v, w1)" using p r by simp
    from session_inv_init [OF Cons.prems(1) call] init_live [OF Cons.prems(1-4) call]
    show ?thesis by simp
  next
    case (Show argv)
    then have call: "nif_rmt_neopixel_show w argv = (r, w1)" using p by simp
    from session_inv_show [OF Cons.prems(1) call] show_live [OF Cons.prems(1-4) call]
    show ?thesis by simp
  qed
  then show ?case using Cons.IH [OF _ _ _ _ rest] by blast
qed

lemma boot_live:
  "set (live_after (trace (boot ao eo)) []) = dom (heap (boot ao eo)) \<and>
   distinct (live_after (trace (boot ao eo)) []) \<and> peak_live (trace (boot ao eo)) [] \<le> 3"
  by (simp add: boot_def)

text \<open>
  Claim C6.  After every sequence of calls from the start of the process there
  is at most one live session: the live blocks of the heap are exactly the (at
  most three) blocks of the session the global pointer addresses, and at no
  moment of the whole history were more than three blocks (one record and its
  two buffers) allocated and not yet freed.  Whenever initialize is then called
  with two integers, whatever the outcome of the call (a result, an abort in
  \<open>ESP_ERROR_CHECK\<close>, or a fault), the events of the call begin with the log
  line and the release of the blocks of the session that was live (pixel buffer,
  pulse buffer, record), and only then comes the first request to the allocator:
  at that moment no block is live, and up to the end of the call never more than
  three blocks are.  When the call returns, none of the old blocks is live and
  the state is again well-formed.  A call with other arguments changes nothing.
\<close>

theorem at_most_one_live_session:
  assumes "run cs (boot ao eo) = Some w"
  shows "session_inv w \<and> dom (heap w) = set (session_blocks w) \<and>
         length (session_blocks w) \<le> 3 \<and>
         set (live_after (trace w) []) = dom (heap w) \<and>
         peak_live (trace w) [] \<le> 3 \<and>
         (\<forall>P N r w'. nif_rmt_neopixel_init w [Integer P, Integer N] = (r, w') \<longrightarrow>
            (\<exists>mr t. trace w' = trace w @ Esp_logi N P # map Free (session_blocks w) @
                                  Malloc 16 mr # t) \<and>
            live_after (trace w @ Esp_logi N P # map Free (session_blocks w)) [] = [] \<and>
            peak_live (trace w') [] \<le> 3 \<and>
            (\<forall>v. r = Returns v \<longrightarrow>
               session_inv w' \<and> (\<forall>a \<in> set (session_blocks w). heap w' a = None))) \<and>
         (\<forall>argv r w'. nif_rmt_neopixel_init w argv = (r, w') \<and>
            (\<forall>P N. argv \<noteq> [Integer P, Integer N]) \<longrightarrow> w' = w)"
proof -
  have inv: "session_inv w" by (rule session_inv_run [OF session_inv_boot assms])
  note cover = session_blocks_cover [OF inv]
  have live: "set (live_after (trace w) []) = dom (heap w)"
    "distinct (live_after (trace w) [])" "peak_live (trace w) [] \<le> 3"
    using run_live [OF session_inv_boot _ _ _ assms] boot_live [of ao eo] by simp_all
  have args: "w' = w"
    if "nif_rmt_neopixel_init w argv = (r, w') \<and> (\<forall>P N. argv \<noteq> [Integer P, Integer N])"
    for argv r w'
    using init_argv_cases [of argv w] that by auto
  have ints: "(\<exists>mr t. trace w' = trace w @ Esp_logi N P # map Free (session_blocks w) @
                                  Malloc 16 mr # t) \<and>
            live_after (trace w @ Esp_logi N P # map Free (session_blocks w)) [] = [] \<and>
            peak_live (trace w') [] \<le> 3 \<and>
            (\<forall>v. r = Returns v \<longrightarrow>
               session_inv w' \<and> (\<forall>a \<in> set (session_blocks w). heap w' a = None))"
    if call: "nif_rmt_neopixel_init w [Integer P, Integer N] = (r, w')" for P N r w'
  proof (intro conjI allI impI ballI)
    from init_outcome [OF inv, of P N] call obtain mr t where
      t: "trace w' = trace w @ Esp_logi N P # map Free (session_blocks w) @ Malloc 16 mr # t"
      and c: "if list_ex alloc_failed (Malloc 16 mr # t)
        then r = Returns MEMORY_ERROR_ATOM \<and> heap w' = Map.empty
        else r = Aborts \<or> r = Undefined_behaviour \<or>
             r = Returns OK_ATOM \<and> 0 \<le> N \<and> N * 96 \<le> SIZE_MAX \<and>
             (\<exists>ao eo. alloc_oracle w = True # True # True # ao \<and>
                      esp_oracle w = True # True # eo)"
      by (auto split: if_splits)
    from t show "\<exists>mr t. trace w' = trace w @ Esp_logi N P # map Free (session_blocks w) @
                                  Malloc 16 mr # t"
      by blast
    have "live_after (Esp_logi N P # map Free (session_blocks w)) (live_after (trace w) []) = []"
      using live(1) cover by (simp add: live_after_frees)
    then show "live_after (trace w @ Esp_logi N P # map Free (session_blocks w)) [] = []"
      by (simp only: live_after_append)
    show "peak_live (trace w') [] \<le> 3" using init_live [OF inv live call] by simp
    show "session_inv w'" if "r = Returns v" for v
      using session_inv_init [OF inv] call that by simp
    show "heap w' a = None" if rv: "r = Returns v" and a: "a \<in> set (session_blocks w)" for v a
    proof (cases "list_ex alloc_failed (Malloc 16 mr # t)")
      case True
      with c show ?thesis by simp
    next
      case False
      with c rv obtain ao eo where k: "0 \<le> N" "N * 96 \<le> SIZE_MAX"
        "alloc_oracle w = True # True # True # ao" "esp_oracle w = True # True # eo"
        by auto
      have lt: "a < next_addr w" using cover a by blast
      have w': "w' = snd (nif_rmt_neopixel_init w [Integer P, Integer N])"
        using call by simp
      show ?thesis
        unfolding w' init_ok_world [OF inv k(3,4,1,2)] using lt by simp
    qed
  qed
  from inv cover live(1,3) ints args show ?thesis by blast
qed

theorem at_most_one_live_session_witness:
  "\<exists>w1 w2 u1 u2.
     run [Initialize [Integer 5, Integer 1]]
       (boot [True, True, True, True, True, True] [True, True, True, True]) = Some w1 \<and>
     session_inv w1 \<and> session_blocks w1 = [1, 2, 0] \<and>
     nif_rmt_neopixel_init w1 [Integer 6, Integer 2] = (Returns OK_ATOM, w2) \<and>
     session_inv w2 \<and> peak_live (trace w2) [] \<le> 3 \<and>
     trace w2 =
       [Esp_logi 1 5, Malloc 16 (Some 0), Calloc 3 1 (Some 1), Calloc 24 4 (Some 2),
        Rmt_config (rmt_cfg 5), Rmt_driver_install RMT_CHANNEL 0 0,
        Esp_logi 2 6, Free 1, Free 2, Free 0,
        Malloc 16 (Some 3), Calloc 6 1 (Some 4), Calloc 48 4 (Some 5),
        Rmt_config (rmt_cfg 6), Rmt_driver_install RMT_CHANNEL 0 0] \<and>
     run [Initialize [Integer 5, Integer 1]]
       (boot [True, True, True, True, True, True] [True, True, True, False]) = Some u1 \<and>
     session_blocks u1 = [1, 2, 0] \<and>
     nif_rmt_neopixel_init u1 [Integer 6, Integer 2] = (Aborts, u2) \<and>
     peak_live (trace u2) [] \<le> 3 \<and>
     (\<exists>mr t. trace u2 = trace u1 @ Esp_logi 2 6 # Free 1 # Free 2 # Free 0 # Malloc 16 mr # t)"
proof -
  let ?b = "boot [True, True, True, True, True, True] [True, True, True, True]"
  have p: "alloc_oracle ?b = True # True # True # [True, True, True]"
    "esp_oracle ?b = True # True # [True, True]" "(0 :: int) \<le> 1" "(1 :: int) * 96 \<le> SIZE_MAX"
    by (simp_all add: boot_def SIZE_MAX_def)
  note e1 = init_ok_world [OF session_inv_boot p, of 5]
  define w1 where "w1 = snd (nif_rmt_neopixel_init ?b [Integer 5, Integer 1])"
  have a1: "nif_rmt_neopixel_init ?b [Integer 5, Integer 1] = (Returns OK_ATOM, w1)"
    unfolding w1_def e1 by simp
  have o1: "alloc_oracle w1 = True # True # True # []" "esp_oracle w1 = True # True # []"
    unfolding w1_def e1 by simp_all
  have sb0: "session_blocks ?b = []"
    by (simp add: session_blocks_def deref_state_def boot_def)
  have t1: "trace w1 =
      [Esp_logi 1 5, Malloc 16 (Some 0), Calloc 3 1 (Some 1), Calloc 24 4 (Some 2),
       Rmt_config (rmt_cfg 5), Rmt_driver_install RMT_CHANNEL 0 0]"
    unfolding w1_def e1 by (simp add: sb0) (simp add: boot_def)
  have n1: "next_addr w1 = 3"
    unfolding w1_def e1 by (simp add: boot_def)
  have sb: "session_blocks w1 = [1, 2, 0]"
    unfolding w1_def e1 by (simp add: session_blocks_def deref_state_def boot_def)
  have r: "run [Initialize [Integer 5, Integer 1]] ?b = Some w1"
    by (simp add: a1)
  have i1: "session_inv w1" by (rule session_inv_init [OF session_inv_boot a1])
  have q: "(0 :: int) \<le> 2" "(2 :: int) * 96 \<le> SIZE_MAX" by (simp_all add: SIZE_MAX_def)
  note e2 = init_ok_world [OF i1 o1 q, of 6]
  define w2 where "w2 = snd (nif_rmt_neopixel_init w1 [Integer 6, Integer 2])"
  have a2: "nif_rmt_neopixel_init w1 [Integer 6, Integer 2] = (Returns OK_ATOM, w2)"
    unfolding w2_def e2 by simp
  have t: "trace w2 =
     [Esp_logi 1 5, Malloc 16 (Some 0), Calloc 3 1 (Some 1), Calloc 24 4 (Some 2),
      Rmt_config (rmt_cfg 5), Rmt_driver_install RMT_CHANNEL 0 0,
      Esp_logi 2 6, Free 1, Free 2, Free 0,
      Malloc 16 (Some 3), Calloc 6 1 (Some 4), Calloc 48 4 (Some 5),
      Rmt_config (rmt_cfg 6), Rmt_driver_install RMT_CHANNEL 0 0]"
    unfolding w2_def e2 by (simp add: t1 n1 sb)
  from at_most_one_live_session [OF r] a2
  have first: "session_inv w1 \<and> session_inv w2 \<and> peak_live (trace w2) [] \<le> 3" by blast
  let ?c = "boot [True, True, True, True, True, True] [True, True, True, False]"
  have p': "alloc_oracle ?c = True # True # True # [True, True, True]"
    "esp_oracle ?c = True # True # [True, False]"
    by (simp_all add: boot_def)
  note f1 = init_ok_world [OF session_inv_boot p' p(3,4), of 5]
  define u1 where "u1 = snd (nif_rmt_neopixel_init ?c [Integer 5, Integer 1])"
  have b1: "nif_rmt_neopixel_init ?c [Integer 5, Integer 1] = (Returns OK_ATOM, u1)"
    unfolding u1_def f1 by simp
  have o1': "alloc_oracle u1 = True # True # True # []" "esp_oracle u1 = [True, False]"
    unfolding u1_def f1 by simp_all
  have sc0: "session_blocks ?c = []"
    by (simp add: session_blocks_def deref_state_def boot_def)
  have sb': "session_blocks u1 = [1, 2, 0]"
    unfolding u1_def f1 by (simp add: session_blocks_def deref_state_def boot_def)
  have r': "run [Initialize [Integer 5, Integer 1]] ?c = Some u1"
    by (simp add: b1)
  have j1: "session_inv u1" by (rule session_inv_init [OF session_inv_boot b1])
  let ?u0 = "u1\<lparr>heap := Map.empty,
      trace := trace u1 @ Esp_logi 2 6 # map Free (session_blocks u1)\<rparr>"
  have "\<exists>w' t. init_tail 6 2 ?u0 = (Aborts, w') \<and>
           trace w' = trace ?u0 @
             [Malloc 16 (Some (next_addr ?u0)),
              Calloc (to_size_t (2 * 3)) 1 (Some (Suc (next_addr ?u0))),
              Calloc (to_size_t (2 * 3 * 8)) 4 (Some (Suc (Suc (next_addr ?u0)))),
              Rmt_config (rmt_cfg 6)] @ t \<and> t \<in> {[], [Rmt_driver_install RMT_CHANNEL 0 0]}"
    by (rule init_tail_aborts [where ao = "[]"])
      (simp_all add: o1' in_int_range_def INT_MIN_def INT_MAX_def SIZE_MAX_def to_size_t_def)
  then obtain u2 where b2: "nif_rmt_neopixel_init u1 [Integer 6, Integer 2] = (Aborts, u2)"
    unfolding init_inv [OF j1, symmetric] by blast
  from at_most_one_live_session [OF r'] b2
  have second: "peak_live (trace u2) [] \<le> 3 \<and>
     (\<exists>mr t. trace u2 = trace u1 @ Esp_logi 2 6 # map Free (session_blocks u1) @
        Malloc 16 mr # t)"
    by blast
  then have second': "peak_live (trace u2) [] \<le> 3 \<and>
     (\<exists>mr t. trace u2 = trace u1 @ Esp_logi 2 6 # Free 1 # Free 2 # Free 0 # Malloc 16 mr # t)"
    by (simp add: sb')
  from r sb a2 first t r' sb' b2 second' show ?thesis by blast
qed

end
